theory Spec2Isabelle
  imports Main "HOL-Library.Word"
begin

unbundle bit_operations_syntax

section \<open>The player's quiver (crawl-ref/source/quiver.cc)\<close>

text \<open>
  A shallow embedding of the quiver code: the actions that can be quivered, the order in
  which they are offered, the cycler that holds the current action, and the ammo history.
  The game outside quiver.cc (the inventory, the item predicates, the spell and ability
  tables, the options, the targeting interface) is data of the \<open>game\<close> record below:
  every function of quiver.cc reads it through the same names the source uses.
\<close>

subsection \<open>Items\<close>

datatype object_class_type =
  OBJ_WEAPONS | OBJ_MISSILES | OBJ_WANDS | OBJ_MISCELLANY | OBJ_OTHER nat

text \<open>
  The \<open>sub_type\<close> member of an item holds an enumerator of the enum that belongs to the
  item's \<open>base_type\<close>. quiver.cc compares it only with enumerators of that enum (each
  comparison stands behind a test of \<open>base_type\<close>), so the enumerators it names are the
  constructors here and every other value is \<open>SUB_OTHER\<close>.
\<close>

datatype sub_type_t =
  WPN_HUNTING_SLING | WPN_FUSTIBALUS | WPN_SHORTBOW | WPN_LONGBOW
  | WPN_HAND_CROSSBOW | WPN_ARBALEST | WPN_TRIPLE_CROSSBOW
  | MI_STONE | MI_JAVELIN | MI_LARGE_ROCK | MI_THROWING_NET | MI_BOOMERANG | MI_DART
  | WAND_DIGGING | MISC_ZIGGURAT | SUB_OTHER nat

record item_def =
  base_type :: object_class_type
  sub_type :: sub_type_t
  quantity :: int
  inscription :: string
  link :: int
  slot :: int
  unrand_idx :: int
  other_members :: nat

datatype launcher = AMMO_THROW | AMMO_BOW | AMMO_SLING | AMMO_CROSSBOW

datatype launch_retval = BUGGY | FUMBLED | LAUNCHED | THROWN

type_synonym fire_type = "32 word"

subsection \<open>Actions\<close>

text \<open>
  \<open>struct action\<close> and its seven subclasses. Every subclass holds one \<open>int\<close> (an
  inventory slot, a \<open>spell_type\<close> or an \<open>ability_type\<close>); no function of quiver.cc
  does arithmetic on it, so it is an \<open>int\<close> here.
\<close>

datatype action =
  Action
  | Ammo_action int
  | Fumble_action int
  | Spell_action int
  | Ability_action int
  | Wand_action int
  | Misc_action int
  | Artefact_evoke_action int

datatype type_info =
  TI_action | TI_ammo_action | TI_fumble_action | TI_spell_action | TI_ability_action
  | TI_wand_action | TI_misc_action | TI_artefact_evoke_action

fun typeid :: "action \<Rightarrow> type_info" where
  "typeid Action = TI_action"
| "typeid (Ammo_action _) = TI_ammo_action"
| "typeid (Fumble_action _) = TI_fumble_action"
| "typeid (Spell_action _) = TI_spell_action"
| "typeid (Ability_action _) = TI_ability_action"
| "typeid (Wand_action _) = TI_wand_action"
| "typeid (Misc_action _) = TI_misc_action"
| "typeid (Artefact_evoke_action _) = TI_artefact_evoke_action"

text \<open>
  The \<open>static_cast\<close>s of the \<open>equals\<close> overrides: the cast to \<open>ammo_action\<close> is
  defined on an \<open>ammo_action\<close> and on the \<open>fumble_action\<close> derived from it, the cast to
  \<open>wand_action\<close> on a \<open>wand_action\<close>, a \<open>misc_action\<close> and an
  \<open>artefact_evoke_action\<close>; on any other object it has no defined result (\<open>None\<close>).
\<close>

fun as_ammo_action :: "action \<Rightarrow> int option" where
  "as_ammo_action (Ammo_action s) = Some s"
| "as_ammo_action (Fumble_action s) = Some s"
| "as_ammo_action _ = None"

fun as_spell_action :: "action \<Rightarrow> int option" where
  "as_spell_action (Spell_action s) = Some s"
| "as_spell_action _ = None"

fun as_ability_action :: "action \<Rightarrow> int option" where
  "as_ability_action (Ability_action a) = Some a"
| "as_ability_action _ = None"

fun as_wand_action :: "action \<Rightarrow> int option" where
  "as_wand_action (Wand_action s) = Some s"
| "as_wand_action (Misc_action s) = Some s"
| "as_wand_action (Artefact_evoke_action s) = Some s"
| "as_wand_action _ = None"

text \<open>
  Modelled from the spec: quiver.h, which declares \<open>struct action\<close> with the inline
  defaults of its virtual members, is not among the sources. The spec's data model has
  "equality is defined by (kind, payload) only": the base class's \<open>equals\<close> has no payload
  to compare and answers true, and \<open>operator==\<close> (\<open>action_eq\<close>) compares the dynamic
  types before it calls \<open>equals\<close> ("type ensured in base class", as the overrides in
  quiver.cc say).
\<close>

definition action_equals_default :: "action \<Rightarrow> bool option" where
  "action_equals_default other = Some True"

fun equals :: "action \<Rightarrow> action \<Rightarrow> bool option" where
  "equals Action other = action_equals_default other"
| "equals (Ammo_action ammo_slot) other =
     map_option (\<lambda>s. ammo_slot = s) (as_ammo_action other)"
| "equals (Fumble_action ammo_slot) other =
     map_option (\<lambda>s. ammo_slot = s) (as_ammo_action other)"
| "equals (Spell_action spell) other =
     map_option (\<lambda>s. spell = s) (as_spell_action other)"
| "equals (Ability_action ability) other =
     map_option (\<lambda>a. ability = a) (as_ability_action other)"
| "equals (Wand_action wand_slot) other =
     map_option (\<lambda>s. wand_slot = s) (as_wand_action other)"
| "equals (Misc_action wand_slot) other =
     map_option (\<lambda>s. wand_slot = s) (as_wand_action other)"
| "equals (Artefact_evoke_action wand_slot) other =
     map_option (\<lambda>s. wand_slot = s) (as_wand_action other)"

definition action_eq :: "action \<Rightarrow> action \<Rightarrow> bool" where
  "action_eq this other = (typeid other = typeid this \<and> equals this other = Some True)"

subsection \<open>Saving and loading an action\<close>

datatype store_value = SV_STR string | SV_INT int | SV_OTHER nat

type_synonym CrawlHashTable = "string \<rightharpoonup> store_value"

datatype error = Assertion_failed | Null_dereference | Range_check

definition get_string :: "store_value \<Rightarrow> error + string" where
  "get_string v = (case v of SV_STR s \<Rightarrow> Inr s | _ \<Rightarrow> Inl Assertion_failed)"

definition get_int :: "store_value \<Rightarrow> error + int" where
  "get_int v = (case v of SV_INT i \<Rightarrow> Inr i | _ \<Rightarrow> Inl Assertion_failed)"

fun save :: "action \<Rightarrow> CrawlHashTable \<Rightarrow> CrawlHashTable" where
  "save Action save_target = save_target(''type'' \<mapsto> SV_STR ''action'')"
| "save (Ammo_action ammo_slot) save_target =
     (save_target(''type'' \<mapsto> SV_STR ''ammo_action''))(''param'' \<mapsto> SV_INT ammo_slot)"
| "save (Fumble_action ammo_slot) save_target =
     (save_target(''type'' \<mapsto> SV_STR ''fumble_action''))(''param'' \<mapsto> SV_INT ammo_slot)"
| "save (Spell_action spell) save_target =
     (save_target(''type'' \<mapsto> SV_STR ''spell_action''))(''param'' \<mapsto> SV_INT spell)"
| "save (Ability_action ability) save_target =
     (save_target(''type'' \<mapsto> SV_STR ''ability_action''))(''param'' \<mapsto> SV_INT ability)"
| "save (Wand_action wand_slot) save_target =
     (save_target(''type'' \<mapsto> SV_STR ''wand_action''))(''param'' \<mapsto> SV_INT wand_slot)"
| "save (Misc_action wand_slot) save_target =
     (save_target(''type'' \<mapsto> SV_STR ''misc_action''))(''param'' \<mapsto> SV_INT wand_slot)"
| "save (Artefact_evoke_action wand_slot) save_target =
     (save_target(''type'' \<mapsto> SV_STR ''artefact_evoke_action''))
       (''param'' \<mapsto> SV_INT wand_slot)"

definition load_action_of :: "string \<Rightarrow> int \<Rightarrow> action" where
  "load_action_of type_name param =
     (if type_name = ''ammo_action'' then Ammo_action param
      else if type_name = ''spell_action'' then Spell_action param
      else if type_name = ''ability_action'' then Ability_action param
      else if type_name = ''wand_action'' then Wand_action param
      else if type_name = ''misc_action'' then Misc_action param
      else if type_name = ''artefact_evoke_action'' then Artefact_evoke_action param
      else if type_name = ''fumble_action'' then Fumble_action param
      else Action)"

definition load_action :: "CrawlHashTable \<Rightarrow> error + action" where
  "load_action source =
     (case (source ''type'', source ''param'') of
        (Some tv, Some pv) \<Rightarrow>
          (case get_string tv of
             Inl e \<Rightarrow> Inl e
           | Inr type_name \<Rightarrow>
               (case get_int pv of
                  Inl e \<Rightarrow> Inl e
                | Inr param \<Rightarrow> Inr (load_action_of type_name param)))
      | _ \<Rightarrow> Inr (Ammo_action (- 1)))"

subsection \<open>The game outside quiver.cc\<close>

text \<open>
  \<open>you\<close>: the members of the player that quiver.cc reads or writes. \<open>inv_items\<close> is
  \<open>you.inv\<close>, a fixed array of \<open>ENDOFPACK\<close> items, as a function of the index;
  \<open>equip_weapon\<close> is \<open>you.equip[EQ_WEAPON]\<close>, \<open>weapon\<close> the result of
  \<open>you.weapon()\<close> (no item when nothing is wielded), \<open>m_quiver_history\<close> the array
  \<open>m_last_used_of_type\<close> of the ammo history, indexed by the launcher enum.
\<close>

record action_cycler =
  current :: "action option"
  is_launcher_action_cycler :: bool

record player =
  species_is_felid :: bool
  inv_items :: "int \<Rightarrow> item_def"
  equip_weapon :: int
  weapon :: "item_def option"
  redraw_quiver :: bool
  wield_change :: bool
  m_quiver_history :: "launcher \<Rightarrow> item_def"
  launcher_action :: action_cycler

text \<open>
  \<open>Options\<close>: \<open>fire_items_start\<close> is the index of an inventory letter, never
  negative; \<open>fire_order\<close> is the list of filters, each a set of \<open>fire_type\<close> bits.
\<close>

record game_options =
  auto_switch :: bool
  fire_items_start :: nat
  fire_order :: "fire_type list"
  fail_severity_to_quiver :: int

record unrandart_entry =
  evoke_func :: bool
  targeted_evoke_func :: bool

text \<open>
  The functions of other files that quiver.cc calls, with the arguments it passes where
  they vary: \<open>is_launched launcher item\<close> is \<open>is_launched(&you, launcher, item)\<close>,
  \<open>launched_by item launcher\<close> is \<open>item.launched_by(launcher)\<close>,
  \<open>fire_warn_if_impossible\<close> is the silent call, \<open>check_warning_inscriptions\<close> the call
  with \<open>OPER_FIRE\<close>, \<open>your_talents\<close> the \<open>which\<close> members of
  \<open>your_talents(false, true)\<close>, \<open>can_cast_spells\<close> the call with \<open>true\<close>,
  \<open>spell_is_useless s\<close> is \<open>spell_is_useless(s, true, false)\<close>,
  \<open>spell_highlight_by_utility s\<close> the call with \<open>COL_UNKNOWN\<close>,
  \<open>check_ability_possible\<close> and \<open>evoke_check\<close> the quiet calls.
\<close>

record externals =
  defined :: "item_def \<Rightarrow> bool"
  launched_by :: "item_def \<Rightarrow> item_def \<Rightarrow> bool"
  is_launched :: "item_def option \<Rightarrow> item_def \<Rightarrow> launch_retval"
  letter_to_index :: "char \<Rightarrow> int"
  index_to_letter :: "int \<Rightarrow> char"
  fire_warn_if_impossible :: bool
  check_warning_inscriptions :: "item_def \<Rightarrow> bool"
  is_valid_spell :: "int \<Rightarrow> bool"
  has_spell :: "int \<Rightarrow> bool"
  can_cast_spells :: bool
  spell_is_useless :: "int \<Rightarrow> bool"
  get_spell_by_letter :: "char \<Rightarrow> int"
  fail_severity :: "int \<Rightarrow> int"
  spell_highlight_by_utility :: "int \<Rightarrow> int"
  your_talents :: "int list"
  check_ability_possible :: "int \<Rightarrow> bool"
  evoke_check :: "int \<Rightarrow> bool"
  is_unrandom_artefact :: "item_def \<Rightarrow> bool"
  item_is_equipped :: "item_def \<Rightarrow> bool"
  get_unrand_entry :: "int \<Rightarrow> unrandart_entry option"
  enough_hp :: "int \<Rightarrow> bool \<Rightarrow> bool"
  enough_mp :: "int \<Rightarrow> bool \<Rightarrow> bool"

text \<open>
  The values of the enumerators and macros that quiver.cc names and other headers
  define. They are parameters: no theorem below depends on a value chosen for them.
\<close>

record enum_values =
  ENDOFPACK :: nat
  FIRE_LAUNCHER :: fire_type
  FIRE_DART :: fire_type
  FIRE_STONE :: fire_type
  FIRE_JAVELIN :: fire_type
  FIRE_ROCK :: fire_type
  FIRE_NET :: fire_type
  FIRE_BOOMERANG :: fire_type
  FIRE_INSCRIBED :: fire_type
  SPELL_NO_SPELL :: int
  COL_FORBIDDEN :: int
  UNRAND_DISPATER :: int
  UNRAND_OLGREB :: int
  ABIL_NON_ABILITY :: int
  NUM_ABILITIES :: int
  ABIL_FIRST_SACRIFICE :: int
  ABIL_FINAL_SACRIFICE :: int
  ABIL_HEPLIAKLQANA_FIRST_TYPE :: int
  ABIL_HEPLIAKLQANA_LAST_TYPE :: int
  pseudoability_cases :: "int list"

record game =
  you :: player
  Options :: game_options
  ext :: externals
  enums :: enum_values

subsection \<open>Launchers and item filters\<close>

definition get_weapon_ammo_type :: "item_def option \<Rightarrow> launcher" where
  "get_weapon_ammo_type wpn =
     (case wpn of
        None \<Rightarrow> AMMO_THROW
      | Some w \<Rightarrow>
          if base_type w \<noteq> OBJ_WEAPONS then AMMO_THROW
          else (case sub_type w of
                  WPN_HUNTING_SLING \<Rightarrow> AMMO_SLING
                | WPN_FUSTIBALUS \<Rightarrow> AMMO_SLING
                | WPN_SHORTBOW \<Rightarrow> AMMO_BOW
                | WPN_LONGBOW \<Rightarrow> AMMO_BOW
                | WPN_HAND_CROSSBOW \<Rightarrow> AMMO_CROSSBOW
                | WPN_ARBALEST \<Rightarrow> AMMO_CROSSBOW
                | WPN_TRIPLE_CROSSBOW \<Rightarrow> AMMO_CROSSBOW
                | _ \<Rightarrow> AMMO_THROW))"

text \<open>\<open>strstr(hay, needle)\<close> and \<open>hay.find(needle, 0) != npos\<close>: does \<open>needle\<close> occur in \<open>hay\<close>.\<close>

fun starts_with :: "string \<Rightarrow> string \<Rightarrow> bool" where
  "starts_with hay [] = True"
| "starts_with [] (n # ns) = False"
| "starts_with (h # hs) (n # ns) = (h = n \<and> starts_with hs ns)"

fun strstr :: "string \<Rightarrow> string \<Rightarrow> bool" where
  "strstr [] needle = (needle = [])"
| "strstr (h # hs) needle = (starts_with (h # hs) needle \<or> strstr hs needle)"

text \<open>
  \<open>_item_matches\<close>. Its first statement is \<open>ASSERT(item.defined())\<close>; every call in
  quiver.cc stands behind a test of \<open>defined()\<close>, and so does every call below.
\<close>

definition item_matches ::
  "game \<Rightarrow> item_def \<Rightarrow> fire_type \<Rightarrow> item_def option \<Rightarrow> bool \<Rightarrow> bool" where
  "item_matches g item types launcher manual =
     (if types AND FIRE_INSCRIBED (enums g) \<noteq> 0
         \<and> strstr (inscription item) (if manual then ''+F'' else ''+f'') then True
      else if base_type item \<noteq> OBJ_MISSILES then False
      else if types AND FIRE_STONE (enums g) \<noteq> 0 \<and> sub_type item = MI_STONE then True
      else if types AND FIRE_JAVELIN (enums g) \<noteq> 0 \<and> sub_type item = MI_JAVELIN then True
      else if types AND FIRE_ROCK (enums g) \<noteq> 0 \<and> sub_type item = MI_LARGE_ROCK then True
      else if types AND FIRE_NET (enums g) \<noteq> 0 \<and> sub_type item = MI_THROWING_NET then True
      else if types AND FIRE_BOOMERANG (enums g) \<noteq> 0 \<and> sub_type item = MI_BOOMERANG
        then True
      else if types AND FIRE_DART (enums g) \<noteq> 0 \<and> sub_type item = MI_DART then True
      else if types AND FIRE_LAUNCHER (enums g) \<noteq> 0
        then (case launcher of None \<Rightarrow> False | Some l \<Rightarrow> launched_by (ext g) item l)
      else False)"

definition autoswitch_active :: "game \<Rightarrow> bool" where
  "autoswitch_active g =
     (auto_switch (Options g)
      \<and> (equip_weapon (you g) = letter_to_index (ext g) CHR ''a''
           \<or> equip_weapon (you g) = letter_to_index (ext g) CHR ''b''))"

definition autoswitch_ammo_check :: "game \<Rightarrow> item_def \<Rightarrow> bool" where
  "autoswitch_ammo_check g ammo =
     (if \<not> defined (ext g) ammo then False
      else
        let w1 = inv_items (you g) (letter_to_index (ext g) CHR ''a'');
            w2 = inv_items (you g) (letter_to_index (ext g) CHR ''b'')
        in (defined (ext g) w1 \<and> item_matches g ammo 0xffff (Some w1) False)
           \<or> (defined (ext g) w2 \<and> item_matches g ammo 0xffff (Some w2) False))"

subsection \<open>The item fire order\<close>

text \<open>
  The condition of the inner loop of \<open>_get_item_fire_order\<close>: the item matches the
  filter \<open>Options.fire_order[i_flags]\<close>, or the launcher is the autoswitch weapon in
  slot a or b and the item passes the autoswitch ammo check.
\<close>

definition fire_order_accepts ::
  "game \<Rightarrow> item_def \<Rightarrow> item_def option \<Rightarrow> bool \<Rightarrow> fire_type \<Rightarrow> bool" where
  "fire_order_accepts g item launcher manual flags =
     (item_matches g item flags launcher manual
      \<or> (case launcher of
            None \<Rightarrow> False
          | Some l \<Rightarrow>
              autoswitch_active g
              \<and> (link l = letter_to_index (ext g) CHR ''a''
                   \<or> link l = letter_to_index (ext g) CHR ''b'')
              \<and> autoswitch_ammo_check g item))"

text \<open>The inner loop: the first \<open>i_flags\<close> whose filter accepts, counted from \<open>i_flags\<close>.\<close>

fun first_flag :: "(fire_type \<Rightarrow> bool) \<Rightarrow> fire_type list \<Rightarrow> nat \<Rightarrow> nat option" where
  "first_flag accepts [] i_flags = None"
| "first_flag accepts (flags # rest) i_flags =
     (if accepts flags then Some i_flags else first_flag accepts rest (Suc i_flags))"

text \<open>
  \<open>(i_flags<<16) | (i_inv & 0xffff)\<close>: computed in \<open>unsigned int\<close> (32 bits) and stored
  in a \<open>vector<int>\<close>, so the value sorted is the two's complement reading.
\<close>

definition fire_order_key :: "nat \<Rightarrow> nat \<Rightarrow> int" where
  "fire_order_key i_flags i_inv =
     sint (push_bit 16 (word_of_nat i_flags :: 32 word) OR (word_of_nat i_inv AND 0xffff))"

definition item_fire_order_entry ::
  "game \<Rightarrow> bool \<Rightarrow> item_def option \<Rightarrow> bool \<Rightarrow> nat \<Rightarrow> int option" where
  "item_fire_order_entry g ignore_inscription_etc launcher manual i_inv =
     (let item = inv_items (you g) (int i_inv);
          l = is_launched (ext g) launcher item
      in if \<not> defined (ext g) item then None
         else if \<not> manual \<and> get_weapon_ammo_type launcher \<noteq> AMMO_THROW \<and> l = THROWN
           then None
         else if \<not> ignore_inscription_etc
                 \<and> strstr (inscription item) (if manual then ''=F'' else ''=f'')
           then None
         else map_option (\<lambda>i_flags. fire_order_key i_flags i_inv)
                (first_flag (fire_order_accepts g item launcher manual)
                   (fire_order (Options g)) 0))"

text \<open>
  \<open>_get_item_fire_order(order, ...)\<close>: appends the keys to \<open>order\<close>, sorts the whole
  vector and masks every entry. The result is the vector as the caller finds it.
\<close>

definition get_item_fire_order ::
  "game \<Rightarrow> int list \<Rightarrow> bool \<Rightarrow> item_def option \<Rightarrow> bool \<Rightarrow> int list" where
  "get_item_fire_order g order ignore_inscription_etc launcher manual =
     (let inv_start = (if ignore_inscription_etc then 0 else fire_items_start (Options g));
          pushed = order @ List.map_filter
                     (item_fire_order_entry g ignore_inscription_etc launcher manual)
                     [inv_start ..< ENDOFPACK (enums g)]
      in map (\<lambda>k. k AND 0xffff) (sort pushed))"

subsection \<open>The variant resolvers\<close>

text \<open>
  Modelled from the spec: quiver.h is not among the sources, so the inline defaults of
  \<open>struct action\<close> are written here. The unset action of the spec ("Nothing quivered")
  is not an inventory item (\<open>get_item\<close> is \<open>-1\<close>, the value \<open>action_cycler::set\<close> and
  \<open>find_action_from_launcher\<close> test with \<open>>= 0\<close>), has an empty fire order (the spec:
  "the sequence head if current is empty/unrecognized"), is never enabled, and is valid
  (\<open>set_to_quiver\<close> tests \<open>is_valid()\<close> before it asks \<open>allow_empty\<close>).
\<close>

definition action_is_valid_default :: bool where
  "action_is_valid_default = True"

definition action_is_enabled_default :: bool where
  "action_is_enabled_default = False"

definition action_get_item_default :: int where
  "action_get_item_default = - 1"

definition action_get_fire_order_default :: "action list" where
  "action_get_fire_order_default = []"

fun get_item :: "action \<Rightarrow> int" where
  "get_item (Ammo_action ammo_slot) = ammo_slot"
| "get_item (Fumble_action ammo_slot) = ammo_slot"
| "get_item (Wand_action wand_slot) = wand_slot"
| "get_item (Misc_action wand_slot) = wand_slot"
| "get_item (Artefact_evoke_action wand_slot) = wand_slot"
| "get_item _ = action_get_item_default"

definition ammo_action_is_valid :: "game \<Rightarrow> int \<Rightarrow> bool" where
  "ammo_action_is_valid g ammo_slot =
     (if species_is_felid (you g) then False
      else if ammo_slot < 0 \<or> ammo_slot \<ge> int (ENDOFPACK (enums g)) then False
      else
        let ammo = inv_items (you g) ammo_slot
        in if \<not> defined (ext g) ammo then False
           else if autoswitch_active g then autoswitch_ammo_check g ammo
           else item_matches g ammo 0xffff (weapon (you g)) False)"

definition fumble_action_is_valid :: "game \<Rightarrow> int \<Rightarrow> bool" where
  "fumble_action_is_valid g ammo_slot =
     (if species_is_felid (you g) then False
      else if ammo_slot < 0 \<or> ammo_slot \<ge> int (ENDOFPACK (enums g)) then False
      else
        let ammo = inv_items (you g) ammo_slot
        in if \<not> defined (ext g) ammo then False
           else if ammo_action_is_valid g ammo_slot then False
           else True)"

definition spell_action_is_valid :: "game \<Rightarrow> int \<Rightarrow> bool" where
  "spell_action_is_valid g spell = (is_valid_spell (ext g) spell \<and> has_spell (ext g) spell)"

definition ability_action_is_valid :: "game \<Rightarrow> int \<Rightarrow> bool" where
  "ability_action_is_valid g ability =
     (if ability = ABIL_NON_ABILITY (enums g) \<or> ability = NUM_ABILITIES (enums g) then False
      else list_ex (\<lambda>which. which = ability) (your_talents (ext g)))"

definition wand_action_is_valid :: "game \<Rightarrow> int \<Rightarrow> bool" where
  "wand_action_is_valid g wand_slot =
     (if wand_slot < 0 \<or> wand_slot \<ge> int (ENDOFPACK (enums g)) then False
      else
        let wand = inv_items (you g) wand_slot
        in if \<not> defined (ext g) wand \<or> base_type wand \<noteq> OBJ_WANDS then False else True)"

definition misc_action_is_valid :: "game \<Rightarrow> int \<Rightarrow> bool" where
  "misc_action_is_valid g wand_slot =
     (if wand_slot < 0 \<or> wand_slot \<ge> int (ENDOFPACK (enums g)) then False
      else
        let wand = inv_items (you g) wand_slot
        in if \<not> defined (ext g) wand \<or> base_type wand \<noteq> OBJ_MISCELLANY then False
           else True)"

definition artefact_evoke_action_is_valid :: "game \<Rightarrow> int \<Rightarrow> bool" where
  "artefact_evoke_action_is_valid g wand_slot =
     (if wand_slot < 0 \<or> wand_slot \<ge> int (ENDOFPACK (enums g)) then False
      else
        let item = inv_items (you g) wand_slot
        in if \<not> defined (ext g) item \<or> \<not> is_unrandom_artefact (ext g) item
              \<or> \<not> item_is_equipped (ext g) item then False
           else (case get_unrand_entry (ext g) (unrand_idx item) of
                   None \<Rightarrow> False
                 | Some entry \<Rightarrow>
                     if \<not> (evoke_func entry \<or> targeted_evoke_func entry) then False
                     else True))"

fun is_valid :: "game \<Rightarrow> action \<Rightarrow> bool" where
  "is_valid g Action = action_is_valid_default"
| "is_valid g (Ammo_action ammo_slot) = ammo_action_is_valid g ammo_slot"
| "is_valid g (Fumble_action ammo_slot) = fumble_action_is_valid g ammo_slot"
| "is_valid g (Spell_action spell) = spell_action_is_valid g spell"
| "is_valid g (Ability_action ability) = ability_action_is_valid g ability"
| "is_valid g (Wand_action wand_slot) = wand_action_is_valid g wand_slot"
| "is_valid g (Misc_action wand_slot) = misc_action_is_valid g wand_slot"
| "is_valid g (Artefact_evoke_action wand_slot) = artefact_evoke_action_is_valid g wand_slot"

text \<open>\<open>launcher_check\<close>: virtual in \<open>ammo_action\<close>, overridden by \<open>fumble_action\<close>.\<close>

definition ammo_action_launcher_check :: "game \<Rightarrow> int \<Rightarrow> bool" where
  "ammo_action_launcher_check g ammo_slot =
     (if ammo_slot < 0 then False
      else item_matches g (inv_items (you g) ammo_slot) 0xffff (weapon (you g)) False)"

text \<open>
  \<open>ammo_action::is_enabled\<close>, which \<open>fumble_action\<close> inherits: \<open>valid\<close> and
  \<open>launcher_ok\<close> are the results of the virtual calls \<open>is_valid()\<close> and
  \<open>launcher_check()\<close> on the object.
\<close>

definition ammo_action_is_enabled :: "game \<Rightarrow> bool \<Rightarrow> bool \<Rightarrow> int \<Rightarrow> bool" where
  "ammo_action_is_enabled g valid launcher_ok ammo_slot =
     (if \<not> valid then False
      else if fire_warn_if_impossible (ext g) then False
      else if \<not> launcher_ok then False
      else
        let wpn = weapon (you g);
            ammo = inv_items (you g) ammo_slot
        in check_warning_inscriptions (ext g) ammo
           \<and> (case wpn of
                 None \<Rightarrow> True
               | Some w \<Rightarrow>
                   is_launched (ext g) wpn ammo \<noteq> LAUNCHED
                   \<or> check_warning_inscriptions (ext g) w))"

definition artefact_evoke_check :: "game \<Rightarrow> int \<Rightarrow> bool \<Rightarrow> bool" where
  "artefact_evoke_check g wand_slot quiet =
     (if \<not> artefact_evoke_action_is_valid g wand_slot then False
      else
        let idx = unrand_idx (inv_items (you g) wand_slot)
        in if idx = UNRAND_DISPATER (enums g)
             then enough_hp (ext g) 14 quiet \<and> enough_mp (ext g) 4 quiet
           else if idx = UNRAND_OLGREB (enums g) then enough_mp (ext g) 4 quiet
           else True)"

fun is_enabled :: "game \<Rightarrow> action \<Rightarrow> bool" where
  "is_enabled g Action = action_is_enabled_default"
| "is_enabled g (Ammo_action ammo_slot) =
     ammo_action_is_enabled g (is_valid g (Ammo_action ammo_slot))
       (ammo_action_launcher_check g ammo_slot) ammo_slot"
| "is_enabled g (Fumble_action ammo_slot) =
     ammo_action_is_enabled g (is_valid g (Fumble_action ammo_slot)) True ammo_slot"
| "is_enabled g (Spell_action spell) =
     (can_cast_spells (ext g) \<and> \<not> spell_is_useless (ext g) spell)"
| "is_enabled g (Ability_action ability) =
     (is_valid g (Ability_action ability) \<and> check_ability_possible (ext g) ability)"
| "is_enabled g (Wand_action wand_slot) = evoke_check (ext g) wand_slot"
| "is_enabled g (Misc_action wand_slot) = evoke_check (ext g) wand_slot"
| "is_enabled g (Artefact_evoke_action wand_slot) = artefact_evoke_check g wand_slot True"

text \<open>
  \<open>_pseudoability\<close>: the two ranges, then the \<open>switch\<close>, whose twenty case labels
  (\<open>ABIL_END_TRANSFORMATION\<close> ... \<open>ABIL_TRAN_BAT\<close>) are the list \<open>pseudoability_cases\<close>.
\<close>

definition pseudoability :: "game \<Rightarrow> int \<Rightarrow> bool" where
  "pseudoability g a =
     (if (a \<ge> ABIL_FIRST_SACRIFICE (enums g) \<and> a \<le> ABIL_FINAL_SACRIFICE (enums g))
         \<or> (a \<ge> ABIL_HEPLIAKLQANA_FIRST_TYPE (enums g)
             \<and> a \<le> ABIL_HEPLIAKLQANA_LAST_TYPE (enums g)) then True
      else List.member (pseudoability_cases (enums g)) a)"

subsection \<open>The fire order of each kind\<close>

definition ammo_action_get_fire_order :: "game \<Rightarrow> bool \<Rightarrow> action list" where
  "ammo_action_get_fire_order g allow_disabled =
     (let fire_order = get_item_fire_order g [] False (weapon (you g)) True
      in filter (\<lambda>a. is_valid g a \<and> (allow_disabled \<or> is_enabled g a))
           (map Ammo_action fire_order))"

definition spell_action_get_fire_order :: "game \<Rightarrow> bool \<Rightarrow> action list" where
  "spell_action_get_fire_order g allow_disabled =
     map Spell_action
       (filter (\<lambda>s. is_valid g (Spell_action s)
                    \<and> (allow_disabled \<or> is_enabled g (Spell_action s))
                    \<and> fail_severity (ext g) s < fail_severity_to_quiver (Options g)
                    \<and> spell_highlight_by_utility (ext g) s \<noteq> COL_FORBIDDEN (enums g))
          (map (\<lambda>i. get_spell_by_letter (ext g) (index_to_letter (ext g) (int i)))
             [0 ..< 52]))"

definition ability_action_get_fire_order :: "game \<Rightarrow> bool \<Rightarrow> action list" where
  "ability_action_get_fire_order g allow_disabled =
     map Ability_action
       (filter (\<lambda>which. \<not> pseudoability g which
                    \<and> is_valid g (Ability_action which)
                    \<and> (allow_disabled \<or> is_enabled g (Ability_action which)))
          (your_talents (ext g)))"

definition wand_action_get_fire_order :: "game \<Rightarrow> bool \<Rightarrow> action list" where
  "wand_action_get_fire_order g allow_disabled =
     map Wand_action
       (filter (\<lambda>sl. is_valid g (Wand_action sl)
                    \<and> (allow_disabled \<or> is_enabled g (Wand_action sl))
                    \<and> sub_type (inv_items (you g) sl) \<noteq> WAND_DIGGING)
          (map int [0 ..< ENDOFPACK (enums g)]))"

definition misc_action_get_fire_order :: "game \<Rightarrow> bool \<Rightarrow> action list" where
  "misc_action_get_fire_order g allow_disabled =
     map Misc_action
       (filter (\<lambda>sl. is_valid g (Misc_action sl)
                    \<and> (allow_disabled \<or> is_enabled g (Misc_action sl))
                    \<and> sub_type (inv_items (you g) sl) \<noteq> MISC_ZIGGURAT)
          (map int [0 ..< ENDOFPACK (enums g)]))"

definition artefact_evoke_action_get_fire_order :: "game \<Rightarrow> bool \<Rightarrow> action list" where
  "artefact_evoke_action_get_fire_order g allow_disabled =
     map Artefact_evoke_action
       (filter (\<lambda>sl. is_valid g (Artefact_evoke_action sl)
                    \<and> (allow_disabled \<or> is_enabled g (Artefact_evoke_action sl)))
          (map int [0 ..< ENDOFPACK (enums g)]))"

fun get_fire_order :: "game \<Rightarrow> action \<Rightarrow> bool \<Rightarrow> action list" where
  "get_fire_order g Action allow_disabled = action_get_fire_order_default"
| "get_fire_order g (Ammo_action _) allow_disabled = ammo_action_get_fire_order g allow_disabled"
| "get_fire_order g (Fumble_action _) allow_disabled =
     ammo_action_get_fire_order g allow_disabled"
| "get_fire_order g (Spell_action _) allow_disabled =
     spell_action_get_fire_order g allow_disabled"
| "get_fire_order g (Ability_action _) allow_disabled =
     ability_action_get_fire_order g allow_disabled"
| "get_fire_order g (Wand_action _) allow_disabled = wand_action_get_fire_order g allow_disabled"
| "get_fire_order g (Misc_action _) allow_disabled = misc_action_get_fire_order g allow_disabled"
| "get_fire_order g (Artefact_evoke_action _) allow_disabled =
     artefact_evoke_action_get_fire_order g allow_disabled"

subsection \<open>\<open>action::find_next\<close>\<close>

text \<open>The search loop: the first index \<open>i\<close> with \<open>*o[i] == *this\<close>, or the size of \<open>o\<close>.\<close>

fun find_index :: "action list \<Rightarrow> action \<Rightarrow> nat" where
  "find_index [] this = 0"
| "find_index (x # xs) this = (if action_eq x this then 0 else Suc (find_index xs this))"

definition find_next :: "game \<Rightarrow> action \<Rightarrow> int \<Rightarrow> bool \<Rightarrow> bool \<Rightarrow> action option" where
  "find_next g this dir allow_disabled loop =
     (let o1 = get_fire_order g this allow_disabled
      in if length o1 = 0 then None
         else
           let o2 = (if dir < 0 then rev o1 else o1)
           in if \<not> is_valid g this then Some (o2 ! 0)
              else
                let i = find_index o2 this
                in if i = length o2 then Some (o2 ! 0)
                   else
                     let i' = i + 1
                     in if \<not> loop \<and> i' \<ge> length o2 then None
                        else Some (o2 ! (i' mod length o2)))"

text \<open>
  The fire order in the direction of travel: \<open>find_next\<close> reverses it when \<open>dir\<close> is
  negative.
\<close>

definition directed :: "int \<Rightarrow> 'a list \<Rightarrow> 'a list" where
  "directed dir xs = (if dir < 0 then rev xs else xs)"


subsection \<open>The ammo history\<close>

definition set_quiver :: "game \<Rightarrow> item_def \<Rightarrow> launcher \<Rightarrow> game" where
  "set_quiver g item ammo_type =
     g\<lparr>you := (you g)
        \<lparr>m_quiver_history := (m_quiver_history (you g))(ammo_type := item\<lparr>quantity := 1\<rparr>),
         redraw_quiver := True\<rparr>\<rparr>"

definition on_item_fired :: "game \<Rightarrow> item_def \<Rightarrow> bool \<Rightarrow> game" where
  "on_item_fired g item explicitly_chosen =
     (if \<not> explicitly_chosen then g\<lparr>you := (you g)\<lparr>redraw_quiver := True\<rparr>\<rparr>
      else
        let wpn = weapon (you g)
        in if (case wpn of None \<Rightarrow> False | Some w \<Rightarrow> launched_by (ext g) item w)
           then
             let t = get_weapon_ammo_type wpn
             in g\<lparr>you := (you g)
                  \<lparr>m_quiver_history := (m_quiver_history (you g))(t := item\<lparr>quantity := 1\<rparr>),
                   redraw_quiver := True\<rparr>\<rparr>
           else
             let projected = is_launched (ext g) wpn item
             in if projected = FUMBLED then g
                else g\<lparr>you := (you g)
                       \<lparr>m_quiver_history :=
                          (m_quiver_history (you g))(AMMO_THROW := item\<lparr>quantity := 1\<rparr>),
                        redraw_quiver := True\<rparr>\<rparr>)"

text \<open>
  A call of the history, made in the game \<open>w\<close> of its moment; the history table itself
  is threaded from call to call.
\<close>

datatype history_call = Set_quiver item_def launcher | On_item_fired item_def bool

definition history_step ::
  "(launcher \<Rightarrow> item_def) \<Rightarrow> game \<times> history_call \<Rightarrow> (launcher \<Rightarrow> item_def)" where
  "history_step h wc =
     (let g = (fst wc)\<lparr>you := (you (fst wc))\<lparr>m_quiver_history := h\<rparr>\<rparr>
      in m_quiver_history
           (you (case snd wc of
                   Set_quiver item ammo_type \<Rightarrow> set_quiver g item ammo_type
                 | On_item_fired item explicitly_chosen \<Rightarrow>
                     on_item_fired g item explicitly_chosen)))"

definition history_run ::
  "(launcher \<Rightarrow> item_def) \<Rightarrow> (game \<times> history_call) list \<Rightarrow> (launcher \<Rightarrow> item_def)" where
  "history_run h calls = foldl history_step h calls"

subsection \<open>The action cycler\<close>

text \<open>
  \<open>current\<close> is a \<open>shared_ptr<action>\<close>: \<open>None\<close> is the null pointer. The cycler of the
  constructor holds an invalid ammo action. \<open>is_launcher_action_cycler\<close> is the dynamic
  type of the object: \<open>launcher_action_cycler\<close> overrides \<open>set\<close> and
  \<open>set_needs_redraw\<close> (quiver.h, which says which members are virtual, is not among the
  sources; the overrides of quiver.cc are taken to override virtual members, so a call of
  \<open>set\<close> or \<open>set_needs_redraw\<close> inside a base class method reaches them).
\<close>

definition action_cycler_new :: action_cycler where
  "action_cycler_new = \<lparr>current = Some (Ammo_action (- 1)), is_launcher_action_cycler = False\<rparr>"

definition launcher_action_cycler_new :: action_cycler where
  "launcher_action_cycler_new =
     \<lparr>current = Some (Ammo_action (- 1)), is_launcher_action_cycler = True\<rparr>"

definition action_cycler_get :: "action_cycler \<Rightarrow> error + action" where
  "action_cycler_get c =
     (case current c of None \<Rightarrow> Inl Assertion_failed | Some a \<Rightarrow> Inr a)"

definition get_ptr :: "action_cycler \<Rightarrow> action option" where
  "get_ptr c = current c"

definition action_cycler_set_needs_redraw :: "game \<Rightarrow> game" where
  "action_cycler_set_needs_redraw g = g\<lparr>you := (you g)\<lparr>redraw_quiver := True\<rparr>\<rparr>"

definition launcher_action_cycler_set_needs_redraw :: "game \<Rightarrow> game" where
  "launcher_action_cycler_set_needs_redraw g =
     (let g' = action_cycler_set_needs_redraw g
      in g'\<lparr>you := (you g')\<lparr>wield_change := True\<rparr>\<rparr>)"

definition set_needs_redraw :: "game \<Rightarrow> action_cycler \<Rightarrow> game" where
  "set_needs_redraw g c =
     (if is_launcher_action_cycler c then launcher_action_cycler_set_needs_redraw g
      else action_cycler_set_needs_redraw g)"

text \<open>
  \<open>you.inv[i]\<close> where quiver.cc has tested no upper bound of \<open>i\<close>: outside the array
  there is no item to read, and the model stops with \<open>Range_check\<close>.
\<close>

definition inv_at :: "game \<Rightarrow> int \<Rightarrow> error + item_def" where
  "inv_at g i =
     (if 0 \<le> i \<and> i < int (ENDOFPACK (enums g)) then Inr (inv_items (you g) i)
      else Inl Range_check)"

definition action_cycler_set ::
  "game \<Rightarrow> action_cycler \<Rightarrow> action option \<Rightarrow> error + (bool \<times> game \<times> action_cycler)" where
  "action_cycler_set g c new_act =
     (let n = (case new_act of Some a \<Rightarrow> a | None \<Rightarrow> Action)
      in case action_cycler_get c of
           Inl e \<Rightarrow> Inl e
         | Inr cur \<Rightarrow>
             let diff = \<not> action_eq n cur;
                 c' = c\<lparr>current := Some n\<rparr>
             in if diff then
                  let item_slot = get_item n
                  in if item_slot \<ge> 0 then
                       (case inv_at g item_slot of
                          Inl e \<Rightarrow> Inl e
                        | Inr item \<Rightarrow>
                            if defined (ext g) item then
                              let wpn = weapon (you g);
                                  t = (if (case wpn of None \<Rightarrow> False
                                           | Some w \<Rightarrow> launched_by (ext g) item w)
                                       then get_weapon_ammo_type wpn else AMMO_THROW)
                              in Inr (diff, set_needs_redraw (set_quiver g item t) c', c')
                            else Inr (diff, set_needs_redraw g c', c'))
                     else Inr (diff, set_needs_redraw g c', c')
                else Inr (diff, set_needs_redraw g c', c'))"

definition is_currently_launched_ammo :: "game \<Rightarrow> int \<Rightarrow> error + bool" where
  "is_currently_launched_ammo g sl =
     (case weapon (you g) of
        None \<Rightarrow> Inr False
      | Some w \<Rightarrow>
          if \<not> sl \<ge> 0 then Inr False
          else (case inv_at g sl of
                  Inl e \<Rightarrow> Inl e
                | Inr item \<Rightarrow> Inr (defined (ext g) item \<and> launched_by (ext g) item w)))"

definition launcher_action_cycler_set ::
  "game \<Rightarrow> action_cycler \<Rightarrow> action option \<Rightarrow> error + (bool \<times> game \<times> action_cycler)" where
  "launcher_action_cycler_set g c new_act =
     (case new_act of
        None \<Rightarrow> Inl Null_dereference
      | Some a \<Rightarrow>
          (case is_currently_launched_ammo g (get_item a) of
             Inl e \<Rightarrow> Inl e
           | Inr launched \<Rightarrow>
               if launched \<or> action_eq a Action then action_cycler_set g c new_act
               else Inr (False, launcher_action_cycler_set_needs_redraw g, c)))"

text \<open>The virtual call \<open>set(new_act)\<close> on a cycler.\<close>

definition cycler_set ::
  "game \<Rightarrow> action_cycler \<Rightarrow> action option \<Rightarrow> error + (bool \<times> game \<times> action_cycler)" where
  "cycler_set g c new_act =
     (if is_launcher_action_cycler c then launcher_action_cycler_set g c new_act
      else action_cycler_set g c new_act)"

text \<open>
  \<open>action_cycler::set(const action_cycler &other)\<close> compares the two pointers, not the
  actions; \<open>same_pointer\<close> says whether both cyclers share one action object.
\<close>

definition action_cycler_set_cycler ::
  "game \<Rightarrow> action_cycler \<Rightarrow> action_cycler \<Rightarrow> bool \<Rightarrow> bool \<times> game \<times> action_cycler" where
  "action_cycler_set_cycler g c other same_pointer =
     (let diff = \<not> same_pointer;
          c' = c\<lparr>current := current other\<rparr>
      in (diff, set_needs_redraw g c', c'))"

definition clear ::
  "game \<Rightarrow> action_cycler \<Rightarrow> error + (bool \<times> game \<times> action_cycler)" where
  "clear g c = cycler_set g c (Some Action)"

subsection \<open>Cycling\<close>

text \<open>The search of \<open>_get_next_action_type\<close> for the dynamic type of \<open>a\<close>.\<close>

fun find_type_index :: "action list \<Rightarrow> action \<Rightarrow> nat" where
  "find_type_index [] a = 0"
| "find_type_index (rep # reps) a =
     (if typeid rep = typeid a then 0 else Suc (find_type_index reps a))"

text \<open>Its last loop: the first type whose \<open>find_next\<close> is a valid action.\<close>

fun first_valid_next :: "game \<Rightarrow> int \<Rightarrow> bool \<Rightarrow> action list \<Rightarrow> action option" where
  "first_valid_next g dir allow_disabled [] = None"
| "first_valid_next g dir allow_disabled (result # rest) =
     (case find_next g result dir allow_disabled False of
        None \<Rightarrow> first_valid_next g dir allow_disabled rest
      | Some n \<Rightarrow>
          if is_valid g n then Some n else first_valid_next g dir allow_disabled rest)"

definition action_types :: "game \<Rightarrow> action list" where
  "action_types g =
     [Ammo_action (- 1), Wand_action (- 1), Misc_action (- 1), Artefact_evoke_action (- 1),
      Spell_action (SPELL_NO_SPELL (enums g)), Ability_action (ABIL_NON_ABILITY (enums g))]"

definition get_next_action_type ::
  "game \<Rightarrow> action option \<Rightarrow> int \<Rightarrow> bool \<Rightarrow> action option" where
  "get_next_action_type g a dir allow_disabled =
     (let types = (if dir < 0 then rev (action_types g) else action_types g);
          found = (case a of
                     None \<Rightarrow> (0, False)
                   | Some a_ref \<Rightarrow>
                       let i = find_type_index types a_ref
                       in if i \<ge> length types then (0, False) else (i, True));
          i = (if snd found then (fst found + 1) mod length types else fst found)
      in first_valid_next g dir allow_disabled (rotate i types))"

definition action_cycler_next ::
  "game \<Rightarrow> action_cycler \<Rightarrow> int \<Rightarrow> bool \<Rightarrow> error + action option" where
  "action_cycler_next g c dir allow_disabled =
     (case action_cycler_get c of
        Inl e \<Rightarrow> Inl e
      | Inr cur \<Rightarrow>
          let result = find_next g cur dir allow_disabled False;
              result' = (if (case result of None \<Rightarrow> True | Some r \<Rightarrow> \<not> is_valid g r)
                         then get_next_action_type g (get_ptr c) dir allow_disabled
                         else result)
          in if result' = None then Inr (Some (Ammo_action (- 1))) else Inr result')"

definition cycle ::
  "game \<Rightarrow> action_cycler \<Rightarrow> int \<Rightarrow> bool \<Rightarrow> error + (bool \<times> game \<times> action_cycler)" where
  "cycle g c dir allow_disabled =
     (case action_cycler_next g c dir allow_disabled of
        Inl e \<Rightarrow> Inl e
      | Inr n \<Rightarrow> cycler_set g c n)"

text \<open>No kind's fire order offers anything to cycle to.\<close>

definition fire_orders_empty :: "game \<Rightarrow> bool \<Rightarrow> bool" where
  "fire_orders_empty g allow_disabled =
     list_all (\<lambda>rep. get_fire_order g rep allow_disabled = []) (action_types g)"

subsection \<open>The targeting loop\<close>

datatype command_type =
  CMD_NO_CMD | CMD_FIRE | CMD_TARGET_CYCLE_QUIVER_FORWARD | CMD_TARGET_CYCLE_QUIVER_BACKWARD
  | CMD_TARGET_SELECT_ACTION | CMD_OTHER nat

text \<open>
  \<open>ActionSelectMenu::set_to_quiver\<close>. \<open>cur_quiver\<close> is the cycler of the menu,
  \<open>is_you_quiver_action\<close> the answer of \<open>&cur_quiver == &you.quiver_action\<close>.
\<close>

definition set_to_quiver ::
  "game \<Rightarrow> action_cycler \<Rightarrow> bool \<Rightarrow> bool \<Rightarrow> action option
     \<Rightarrow> error + (bool \<times> game \<times> action_cycler)" where
  "set_to_quiver g cur_quiver is_you_quiver_action allow_empty s =
     (case s of
        None \<Rightarrow> Inr (False, g, cur_quiver)
      | Some a \<Rightarrow>
          if is_valid g a \<and> (allow_empty \<or> \<not> action_eq a Action) then
            (case cycler_set g cur_quiver s of
               Inl e \<Rightarrow> Inl e
             | Inr r1 \<Rightarrow>
                 let g1 = fst (snd r1); c1 = snd (snd r1)
                 in if is_you_quiver_action then
                      (case cycler_set g1 (launcher_action (you g1)) s of
                         Inl e \<Rightarrow> Inl e
                       | Inr r2 \<Rightarrow>
                           let g2 = fst (snd r2); lc = snd (snd r2)
                           in Inr (True, g2\<lparr>you := (you g2)\<lparr>launcher_action := lc\<rparr>\<rparr>, c1))
                    else Inr (True, g1, c1))
          else Inr (False, g, cur_quiver))"

text \<open>
  One pass through the body of the loop of \<open>action_cycler::target\<close> that reaches the
  targeting interface. \<open>do_target\<close> hands the current action to code outside quiver.cc
  (\<open>trigger\<close>, \<open>untargeted_fire\<close>, the direction chooser), which answers through the
  action's \<open>target\<close> and may change the game on the way; firing the last item of a stack
  makes the inventory code call \<open>quiver::on_actions_changed\<close>, so that the action "will no
  longer be accessible via get()", as the comment in \<open>do_target\<close> has it. An event is what
  that code did: \<open>ev_game\<close> the game when \<open>do_target\<close> returns, \<open>ev_current\<close> the action
  the cycler holds then, \<open>ev_cmd_result\<close> the \<open>target.cmd_result\<close> of the action,
  \<open>ev_menu_choice\<close> the entry the player picks if the selection menu is opened (the menu
  changes the cycler by one \<open>set_to_quiver\<close> at most).
\<close>

record target_event =
  ev_game :: game
  ev_current :: action
  ev_cmd_result :: command_type
  ev_menu_choice :: "action option"

text \<open>The test \<open>!a || !a->is_valid()\<close> at the head of \<open>do_target\<close>.\<close>

definition do_target_refuses :: "game \<Rightarrow> action_cycler \<Rightarrow> bool" where
  "do_target_refuses g c =
     (case get_ptr c of None \<Rightarrow> True | Some a \<Rightarrow> \<not> is_valid g a)"

text \<open>
  The \<open>do ... while\<close> loop, run on a script of events: the result is
  \<open>(what_happened, force_restore_initial, game, cycler)\<close> at the exit of the loop, an error
  if a call stopped on one, and \<open>None\<close> while the loop still waits for the player (the
  script has ended and the loop has not).
\<close>

fun target_loop ::
  "game \<Rightarrow> action_cycler \<Rightarrow> bool \<Rightarrow> target_event list
     \<Rightarrow> (error + (command_type \<times> bool \<times> game \<times> action_cycler)) option" where
  "target_loop g c is_you_quiver_action [] =
     (if do_target_refuses g c then Some (Inr (CMD_NO_CMD, True, g, c)) else None)"
| "target_loop g c is_you_quiver_action (ev # evs) =
     (case get_ptr c of
        None \<Rightarrow> Some (Inr (CMD_NO_CMD, True, g, c))
      | Some a \<Rightarrow>
          if \<not> is_valid g a then Some (Inr (CMD_NO_CMD, True, g, c))
          else
            let g1 = ev_game ev;
                c1 = c\<lparr>current := Some (ev_current ev)\<rparr>;
                force_restore_initial = \<not> is_valid g1 a
            in (case ev_cmd_result ev of
                  CMD_TARGET_CYCLE_QUIVER_FORWARD \<Rightarrow>
                    (case cycle g1 c1 1 False of
                       Inl e \<Rightarrow> Some (Inl e)
                     | Inr r \<Rightarrow>
                         target_loop (fst (snd r)) (snd (snd r)) is_you_quiver_action evs)
                | CMD_TARGET_CYCLE_QUIVER_BACKWARD \<Rightarrow>
                    (case cycle g1 c1 (- 1) False of
                       Inl e \<Rightarrow> Some (Inl e)
                     | Inr r \<Rightarrow>
                         target_loop (fst (snd r)) (snd (snd r)) is_you_quiver_action evs)
                | CMD_TARGET_SELECT_ACTION \<Rightarrow>
                    (case set_to_quiver g1 c1 is_you_quiver_action False (ev_menu_choice ev) of
                       Inl e \<Rightarrow> Some (Inl e)
                     | Inr r \<Rightarrow>
                         target_loop (fst (snd r)) (snd (snd r)) is_you_quiver_action evs)
                | CMD_FIRE \<Rightarrow> Some (Inr (CMD_FIRE, force_restore_initial, g1, c1))
                | CMD_NO_CMD \<Rightarrow> Some (Inr (CMD_NO_CMD, force_restore_initial, g1, c1))
                | CMD_OTHER _ \<Rightarrow> Some (Inr (CMD_NO_CMD, force_restore_initial, g1, c1))))"

definition target ::
  "game \<Rightarrow> action_cycler \<Rightarrow> bool \<Rightarrow> target_event list
     \<Rightarrow> (error + (game \<times> action_cycler)) option" where
  "target g c is_you_quiver_action evs =
     (let initial = get_ptr c
      in case target_loop g c is_you_quiver_action evs of
           None \<Rightarrow> None
         | Some (Inl e) \<Rightarrow> Some (Inl e)
         | Some (Inr (what_happened, force_restore_initial, g1, c1)) \<Rightarrow>
             if (what_happened = CMD_NO_CMD \<or> force_restore_initial)
                \<and> (case initial of None \<Rightarrow> False | Some i \<Rightarrow> is_valid g1 i)
             then (case cycler_set g1 c1 initial of
                     Inl e \<Rightarrow> Some (Inl e)
                   | Inr r \<Rightarrow> Some (Inr (fst (snd r), snd (snd r))))
             else Some (Inr (g1, c1)))"

subsection \<open>Example games\<close>

text \<open>
  Concrete games on which the theorems below are run: a pack of six slots, a shortbow in
  slot a, and the items each example puts into the other slots.
\<close>

definition ex_item :: "object_class_type \<Rightarrow> sub_type_t \<Rightarrow> int \<Rightarrow> int \<Rightarrow> item_def" where
  "ex_item b s q l =
     \<lparr>base_type = b, sub_type = s, quantity = q, inscription = [], link = l, slot = l,
      unrand_idx = 0, other_members = 0\<rparr>"

definition ex_none :: item_def where
  "ex_none = ex_item (OBJ_OTHER 0) (SUB_OTHER 0) 0 (- 1)"

definition ex_bow :: item_def where
  "ex_bow = ex_item OBJ_WEAPONS WPN_SHORTBOW 1 0"

definition ex_arrows :: "int \<Rightarrow> item_def" where
  "ex_arrows l = ex_item OBJ_MISSILES (SUB_OTHER 1) 20 l"

definition ex_enums :: enum_values where
  "ex_enums =
     \<lparr>ENDOFPACK = 6, FIRE_LAUNCHER = 0x1, FIRE_DART = 0x2, FIRE_STONE = 0x4,
      FIRE_JAVELIN = 0x10, FIRE_ROCK = 0x100, FIRE_NET = 0x200, FIRE_BOOMERANG = 0x800,
      FIRE_INSCRIBED = 0x100000, SPELL_NO_SPELL = 0, COL_FORBIDDEN = 9,
      UNRAND_DISPATER = 1, UNRAND_OLGREB = 2, ABIL_NON_ABILITY = 0, NUM_ABILITIES = 100,
      ABIL_FIRST_SACRIFICE = 50, ABIL_FINAL_SACRIFICE = 59,
      ABIL_HEPLIAKLQANA_FIRST_TYPE = 60, ABIL_HEPLIAKLQANA_LAST_TYPE = 62,
      pseudoability_cases = [70, 71]\<rparr>"

definition ex_ext :: externals where
  "ex_ext =
     \<lparr>defined = (\<lambda>item. quantity item > 0),
      launched_by = (\<lambda>item l. base_type item = OBJ_MISSILES \<and> sub_type item = SUB_OTHER 1
                       \<and> base_type l = OBJ_WEAPONS \<and> sub_type l = WPN_SHORTBOW),
      is_launched = (\<lambda>l item. if base_type item \<noteq> OBJ_MISSILES then FUMBLED
                       else if sub_type item = SUB_OTHER 1 then
                         (if l = None then FUMBLED else LAUNCHED)
                       else THROWN),
      letter_to_index = (\<lambda>c. if of_char c \<ge> (97::int) then of_char c - 97 else of_char c - 39),
      index_to_letter = (\<lambda>i. char_of (if i < 26 then 97 + i else 39 + i)),
      fire_warn_if_impossible = False,
      check_warning_inscriptions = (\<lambda>item. True),
      is_valid_spell = (\<lambda>s. 0 < s),
      has_spell = (\<lambda>s. False),
      can_cast_spells = True,
      spell_is_useless = (\<lambda>s. False),
      get_spell_by_letter = (\<lambda>c. if c = CHR ''a'' then 5 else if c = CHR ''b'' then 6 else 0),
      fail_severity = (\<lambda>s. 0),
      spell_highlight_by_utility = (\<lambda>s. 0),
      your_talents = [],
      check_ability_possible = (\<lambda>a. True),
      evoke_check = (\<lambda>sl. True),
      is_unrandom_artefact = (\<lambda>item. False),
      item_is_equipped = (\<lambda>item. False),
      get_unrand_entry = (\<lambda>i. None),
      enough_hp = (\<lambda>n quiet. True),
      enough_mp = (\<lambda>n quiet. True)\<rparr>"

definition ex_options :: game_options where
  "ex_options =
     \<lparr>auto_switch = False, fire_items_start = 0, fire_order = [0x1, 0x10],
      fail_severity_to_quiver = 3\<rparr>"

definition ex_game :: "(int \<Rightarrow> item_def) \<Rightarrow> game" where
  "ex_game items =
     \<lparr>you = \<lparr>species_is_felid = False, inv_items = items(0 := ex_bow), equip_weapon = 0,
             weapon = Some ex_bow, redraw_quiver = False, wield_change = False,
             m_quiver_history = (\<lambda>t. ex_none),
             launcher_action = launcher_action_cycler_new\<rparr>,
      Options = ex_options, ext = ex_ext, enums = ex_enums\<rparr>"

text \<open>Arrows in slots 3 and 5 (the scenario of the spec); the same with autoswitch on
  and javelins in slot 3; wands in slots 2 and 4, and the same with the wand of slot 2
  disabled; two spells on the letters a and b; a lone wand of digging in slot 2.\<close>

definition ex_arrows_3_5 :: game where
  "ex_arrows_3_5 = ex_game ((\<lambda>i. ex_none)(3 := ex_arrows 3, 5 := ex_arrows 5))"

definition ex_autoswitch :: game where
  "ex_autoswitch =
     (ex_game ((\<lambda>i. ex_none)(3 := ex_item OBJ_MISSILES MI_JAVELIN 4 3, 5 := ex_arrows 5)))
       \<lparr>Options := ex_options\<lparr>auto_switch := True\<rparr>\<rparr>"

definition ex_wands_2_4 :: game where
  "ex_wands_2_4 =
     ex_game ((\<lambda>i. ex_none)(2 := ex_item OBJ_WANDS (SUB_OTHER 7) 1 2,
                             4 := ex_item OBJ_WANDS (SUB_OTHER 8) 1 4))"

definition ex_wand_disabled :: game where
  "ex_wand_disabled = ex_wands_2_4\<lparr>ext := ex_ext\<lparr>evoke_check := (\<lambda>sl. sl \<noteq> 2)\<rparr>\<rparr>"


definition ex_digging :: game where
  "ex_digging = ex_game ((\<lambda>i. ex_none)(2 := ex_item OBJ_WANDS WAND_DIGGING 1 2))"

subsection \<open>Stating the ammo order\<close>

text \<open>
  The \<open>i_flags\<close> at which the inner loop of \<open>_get_item_fire_order\<close> stops for the item
  in slot \<open>sl\<close> (the size of \<open>Options.fire_order\<close> if it runs to the end), and the
  order of the pairs (that rank, slot).
\<close>

definition fire_rank :: "game \<Rightarrow> item_def option \<Rightarrow> bool \<Rightarrow> int \<Rightarrow> nat" where
  "fire_rank g launcher manual sl =
     (case first_flag (fire_order_accepts g (inv_items (you g) sl) launcher manual)
             (fire_order (Options g)) 0 of
        None \<Rightarrow> length (fire_order (Options g))
      | Some i_flags \<Rightarrow> i_flags)"

definition fires_before :: "game \<Rightarrow> item_def option \<Rightarrow> bool \<Rightarrow> int \<Rightarrow> int \<Rightarrow> bool" where
  "fires_before g launcher manual s t =
     (fire_rank g launcher manual s < fire_rank g launcher manual t
      \<or> (fire_rank g launcher manual s = fire_rank g launcher manual t \<and> s < t))"

text \<open>
  The key in the words of the spec: "position of first matching filter in the configured
  filter list, then inventory slot index", the match being \<open>_item_matches\<close> alone.
\<close>

definition first_matching_filter ::
  "game \<Rightarrow> item_def option \<Rightarrow> bool \<Rightarrow> int \<Rightarrow> nat" where
  "first_matching_filter g launcher manual sl =
     (case first_flag (\<lambda>flags. item_matches g (inv_items (you g) sl) flags launcher manual)
             (fire_order (Options g)) 0 of
        None \<Rightarrow> length (fire_order (Options g))
      | Some i \<Rightarrow> i)"

definition matches_before :: "game \<Rightarrow> item_def option \<Rightarrow> bool \<Rightarrow> int \<Rightarrow> int \<Rightarrow> bool" where
  "matches_before g launcher manual s t =
     (first_matching_filter g launcher manual s < first_matching_filter g launcher manual t
      \<or> (first_matching_filter g launcher manual s = first_matching_filter g launcher manual t
          \<and> s < t))"

text \<open>The key as a number, when it has not overflowed.\<close>

definition enc :: "game \<Rightarrow> item_def option \<Rightarrow> bool \<Rightarrow> int \<Rightarrow> int" where
  "enc g l m s = int (fire_rank g l m s) * 65536 + s"

text \<open>A filter list of 32769 entries: javelins first, 32767 empty filters, launcher
  ammo last; arrows in slot 3 and javelins in slot 5.\<close>

definition ex_long_filter_list :: "fire_type list" where
  "ex_long_filter_list = 0x10 # replicate 32767 0 @ [0x1]"

definition ex_many_filters :: game where
  "ex_many_filters =
     (ex_game ((\<lambda>i. ex_none)(3 := ex_arrows 3, 5 := ex_item OBJ_MISSILES MI_JAVELIN 4 5)))
       \<lparr>Options := ex_options\<lparr>fire_order := ex_long_filter_list\<rparr>\<rparr>"

subsection \<open>The cyclers that can arise\<close>

text \<open>
  A cycler is made by a constructor and changed by its operations: \<open>set\<close> with a
  pointer (the virtual call, or the base class's method called by name, as
  \<open>launcher_action_cycler::set\<close> does), \<open>set\<close> with another cycler, \<open>cycle\<close>,
  \<open>clear\<close> and \<open>target\<close>, in any game. Only two statements of quiver.cc assign
  \<open>current\<close>, one in each \<open>set\<close>; every other operation goes through them.
\<close>

inductive reachable :: "action_cycler \<Rightarrow> bool" where
  by_action_cycler: "reachable action_cycler_new"
| by_launcher_action_cycler: "reachable launcher_action_cycler_new"
| by_set: "reachable c \<Longrightarrow> cycler_set g c new_act = Inr (d, g', c') \<Longrightarrow> reachable c'"
| by_action_cycler_set:
    "reachable c \<Longrightarrow> action_cycler_set g c new_act = Inr (d, g', c') \<Longrightarrow> reachable c'"
| by_set_cycler:
    "reachable c \<Longrightarrow> reachable other
       \<Longrightarrow> action_cycler_set_cycler g c other same_pointer = (d, g', c') \<Longrightarrow> reachable c'"
| by_cycle: "reachable c \<Longrightarrow> cycle g c dir allow_disabled = Inr (d, g', c') \<Longrightarrow> reachable c'"
| by_clear: "reachable c \<Longrightarrow> clear g c = Inr (d, g', c') \<Longrightarrow> reachable c'"
| by_target:
    "reachable c \<Longrightarrow> target g c is_you_quiver_action evs = Some (Inr (g', c'))
       \<Longrightarrow> reachable c'"

text \<open>What a run of \<open>target\<close> leaves in the cycler, and how its loop ended.\<close>

definition target_current ::
  "game \<Rightarrow> action_cycler \<Rightarrow> bool \<Rightarrow> target_event list \<Rightarrow> (error + action option) option"
  where
  "target_current g c is_you_quiver_action evs =
     map_option (map_sum id (\<lambda>r. current (snd r))) (target g c is_you_quiver_action evs)"

definition target_loop_exit ::
  "game \<Rightarrow> action_cycler \<Rightarrow> bool \<Rightarrow> target_event list
     \<Rightarrow> (error + command_type \<times> bool) option" where
  "target_loop_exit g c is_you_quiver_action evs =
     map_option (map_sum id (\<lambda>r. (fst r, fst (snd r))))
       (target_loop g c is_you_quiver_action evs)"

text \<open>
  Arrows in slots 3 and 5 and wands in slots 2 and 4; and a last dart in slot 3 with
  javelins in slot 5, before and after the dart is thrown.
\<close>

definition ex_mixed :: game where
  "ex_mixed =
     ex_game ((\<lambda>i. ex_none)(2 := ex_item OBJ_WANDS (SUB_OTHER 7) 1 2, 3 := ex_arrows 3,
                             4 := ex_item OBJ_WANDS (SUB_OTHER 8) 1 4, 5 := ex_arrows 5))"

definition ex_last_dart :: game where
  "ex_last_dart =
     ex_game ((\<lambda>i. ex_none)(3 := ex_item OBJ_MISSILES MI_DART 1 3,
                             5 := ex_item OBJ_MISSILES MI_JAVELIN 4 5))"

definition ex_dart_thrown :: game where
  "ex_dart_thrown = ex_game ((\<lambda>i. ex_none)(5 := ex_item OBJ_MISSILES MI_JAVELIN 4 5))"

definition ex_quiver :: "action \<Rightarrow> action_cycler" where
  "ex_quiver a = \<lparr>current = Some a, is_launcher_action_cycler = False\<rparr>"

definition ex_event :: "game \<Rightarrow> action \<Rightarrow> command_type \<Rightarrow> target_event" where
  "ex_event g a cmd =
     \<lparr>ev_game = g, ev_current = a, ev_cmd_result = cmd, ev_menu_choice = None\<rparr>"

subsection \<open>Relating a cycler to a later one\<close>

text \<open>\<open>c'\<close> is \<open>c\<close> with, at most, another current action installed.\<close>

definition follows :: "action_cycler \<Rightarrow> action_cycler \<Rightarrow> bool" where
  "follows c c' = (c' = c \<or> (\<exists>a. c' = c\<lparr>current := Some a\<rparr>))"

text \<open>The commands that end the loop of \<open>target\<close>: all but the three it handles itself.\<close>

definition ends_loop :: "command_type \<Rightarrow> bool" where
  "ends_loop cmd =
     (cmd \<noteq> CMD_TARGET_CYCLE_QUIVER_FORWARD \<and> cmd \<noteq> CMD_TARGET_CYCLE_QUIVER_BACKWARD
      \<and> cmd \<noteq> CMD_TARGET_SELECT_ACTION)"

section \<open>Round trip and equality\<close>

lemma equals_refl: "equals a a = Some True"
  by (cases a) (simp_all add: action_equals_default_def)

lemma action_eq_iff: "action_eq a b \<longleftrightarrow> a = b"
  by (cases a; cases b) (auto simp: action_eq_def action_equals_default_def)

lemma load_save:
  "typeid a \<noteq> TI_action \<Longrightarrow> load_action (save a t) = Inr a"
  by (cases a) (simp_all add: load_action_def load_action_of_def get_string_def get_int_def)

text \<open>
  C1. For an action \<open>a\<close> of any of the seven concrete kinds, with any integer payload, and
  any table \<open>t\<close> it is saved into, \<open>_load_action\<close> of the saved table returns an action of
  the same dynamic type whose \<open>equals\<close> with \<open>a\<close> is true, which is \<open>a\<close> itself (same
  kind tag, same payload) and \<open>==\<close> \<open>a\<close>. Neither function reads the inventory, the
  spells or the abilities, so this holds whether or not the payload still resolves.
  \<open>equals\<close> is reflexive, and symmetric wherever its casts are defined (two actions of
  the same family); \<open>==\<close> is reflexive and symmetric on all actions.
\<close>

theorem save_load_round_trip:
  "(typeid a \<noteq> TI_action \<longrightarrow>
      (\<exists>b. load_action (save a t) = Inr b \<and> equals b a = Some True
           \<and> typeid b = typeid a \<and> b = a \<and> action_eq b a))
   \<and> equals a a = Some True
   \<and> (typeid a \<noteq> TI_action \<and> typeid c \<noteq> TI_action \<longrightarrow> equals a c = equals c a)
   \<and> action_eq a a
   \<and> (action_eq a c \<longleftrightarrow> action_eq c a)"
proof (intro conjI impI)
  assume k: "typeid a \<noteq> TI_action"
  show "\<exists>b. load_action (save a t) = Inr b \<and> equals b a = Some True
           \<and> typeid b = typeid a \<and> b = a \<and> action_eq b a"
    using load_save [OF k] by (simp add: equals_refl action_eq_iff)
next
  show "equals a a = Some True" by (rule equals_refl)
next
  assume "typeid a \<noteq> TI_action \<and> typeid c \<noteq> TI_action"
  then show "equals a c = equals c a"
    by (cases a; cases c) auto
next
  show "action_eq a a" by (simp add: action_eq_iff)
next
  show "action_eq a c \<longleftrightarrow> action_eq c a" by (auto simp: action_eq_iff)
qed

theorem save_load_round_trip_witness:
  "typeid (Ability_action 7) \<noteq> TI_action
   \<and> \<not> is_valid ex_mixed (Ability_action 7)
   \<and> load_action (save (Ability_action 7) Map.empty) = Inr (Ability_action 7)
   \<and> equals (Ability_action 7) (Ability_action 7) = Some True
   \<and> equals (Ammo_action 3) (Fumble_action 3) = equals (Fumble_action 3) (Ammo_action 3)
   \<and> action_eq (Ability_action 7) (Ability_action 7)"
proof -
  have v: "\<not> is_valid ex_mixed (Ability_action 7)" by code_simp
  show ?thesis
    using save_load_round_trip [of "Ability_action 7" Map.empty "Ability_action 7"]
      save_load_round_trip [of "Ammo_action 3" Map.empty "Fumble_action 3"] v
    by simp
qed

section \<open>\<open>find_next\<close>\<close>

lemma find_index_notin: "a \<notin> set xs \<Longrightarrow> find_index xs a = length xs"
  by (induction xs) (auto simp: action_eq_iff)

lemma find_index_first: "a \<notin> set xs \<Longrightarrow> find_index (xs @ a # ys) a = length xs"
  by (induction xs) (auto simp: action_eq_iff)

lemma fire_order_valid: "x \<in> set (get_fire_order g a ad) \<Longrightarrow> is_valid g x"
  by (cases a)
     (auto simp: action_get_fire_order_default_def ammo_action_get_fire_order_def
        spell_action_get_fire_order_def ability_action_get_fire_order_def
        wand_action_get_fire_order_def misc_action_get_fire_order_def
        artefact_evoke_action_get_fire_order_def)



lemma find_index_mem: "a \<in> set xs \<Longrightarrow> find_index xs a < length xs \<and> xs ! find_index xs a = a"
  by (induction xs) (auto simp: action_eq_iff)

lemma find_index_lt_iff: "find_index xs a = length xs \<longleftrightarrow> a \<notin> set xs"
  using find_index_mem [of a xs] find_index_notin [of a xs] by auto

lemma find_next_eq:
  "find_next g a dir ad lp =
     (let o2 = directed dir (get_fire_order g a ad)
      in if o2 = [] then None
         else if a \<notin> set o2 then Some (hd o2)
         else if \<not> lp \<and> Suc (find_index o2 a) \<ge> length o2 then None
         else Some (o2 ! (Suc (find_index o2 a) mod length o2)))"
proof -
  let ?o1 = "get_fire_order g a ad"
  let ?o2 = "directed dir ?o1"
  have e: "?o2 = [] \<longleftrightarrow> length ?o1 = 0" by (simp add: directed_def)
  have s: "set ?o2 = set ?o1" by (simp add: directed_def)
  have v: "a \<in> set ?o2 \<Longrightarrow> is_valid g a" using fire_order_valid s by blast
  have d: "(if dir < 0 then rev ?o1 else ?o1) = ?o2" by (simp add: directed_def)
  show ?thesis
  proof (cases "?o2 = []")
    case True
    then show ?thesis using e by (simp add: find_next_def Let_def)
  next
    case ne: False
    then have h: "?o2 ! 0 = hd ?o2" by (simp add: hd_conv_nth)
    show ?thesis
    proof (cases "a \<in> set ?o2")
      case False
      then have "find_index ?o2 a = length ?o2" by (simp add: find_index_notin)
      then show ?thesis using ne e False h
        unfolding find_next_def Let_def d by (simp del: One_nat_def)
    next
      case True
      then have "find_index ?o2 a \<noteq> length ?o2" using find_index_lt_iff by blast
      then show ?thesis using ne e True h v [OF True]
        unfolding find_next_def Let_def d by simp
    qed
  qed
qed








text \<open>
  C6. \<open>find_next\<close> of \<open>a\<close> over its kind's fire order, reversed when \<open>dir\<close> is
  negative: when \<open>a\<close> does not occur in the order it returns the first element (none when
  the order is empty); when \<open>a\<close> occurs and another element follows its first
  occurrence, that element; when \<open>a\<close> is the last element, none if \<open>loop\<close> is false and
  the first element, wrapping round, if it is true.
\<close>

theorem find_next_adjacent:
  "(a \<notin> set (directed dir (get_fire_order g a ad)) \<longrightarrow>
      find_next g a dir ad lp =
        (case directed dir (get_fire_order g a ad) of [] \<Rightarrow> None | x # _ \<Rightarrow> Some x))
   \<and> (directed dir (get_fire_order g a ad) = xs @ a # y # ys \<and> a \<notin> set xs \<longrightarrow>
        find_next g a dir ad lp = Some y)
   \<and> (directed dir (get_fire_order g a ad) = xs @ [a] \<and> a \<notin> set xs \<longrightarrow>
        find_next g a dir ad lp = (if lp then Some (hd (xs @ [a])) else None))"
proof (intro conjI impI)
  assume "a \<notin> set (directed dir (get_fire_order g a ad))"
  then show "find_next g a dir ad lp =
        (case directed dir (get_fire_order g a ad) of [] \<Rightarrow> None | x # _ \<Rightarrow> Some x)"
    by (simp add: find_next_eq Let_def split: list.splits)
next
  assume h: "directed dir (get_fire_order g a ad) = xs @ a # y # ys \<and> a \<notin> set xs"
  then have "find_index (xs @ a # y # ys) a = length xs" by (simp add: find_index_first)
  then show "find_next g a dir ad lp = Some y"
    using h by (simp add: find_next_eq Let_def nth_append)
next
  assume h: "directed dir (get_fire_order g a ad) = xs @ [a] \<and> a \<notin> set xs"
  then have "find_index (xs @ [a]) a = length xs" by (simp add: find_index_first)
  then show "find_next g a dir ad lp = (if lp then Some (hd (xs @ [a])) else None)"
    using h by (simp add: find_next_eq Let_def hd_conv_nth)
qed

lemma ex_wands_order:
  "wand_action_get_fire_order ex_wands_2_4 True = [Wand_action 2, Wand_action 4]"
  by code_simp

theorem find_next_adjacent_witness:
  "find_next ex_wands_2_4 (Wand_action 3) 1 True False = Some (Wand_action 2)
   \<and> find_next ex_wands_2_4 (Wand_action 2) 1 True False = Some (Wand_action 4)
   \<and> find_next ex_wands_2_4 (Wand_action 4) 1 True False = None
   \<and> find_next ex_wands_2_4 (Wand_action 4) 1 True True = Some (Wand_action 2)
   \<and> find_next ex_wands_2_4 (Wand_action 4) (- 1) True False = Some (Wand_action 2)
   \<and> is_valid ex_wand_disabled (Wand_action 2)
   \<and> \<not> is_enabled ex_wand_disabled (Wand_action 2)
   \<and> find_next ex_wand_disabled (Wand_action 2) 1 False False = Some (Wand_action 4)"
proof -
  note o = ex_wands_order
  have d: "wand_action_get_fire_order ex_wand_disabled False = [Wand_action 4]" by code_simp
  have v: "is_valid ex_wand_disabled (Wand_action 2)"
    "\<not> is_enabled ex_wand_disabled (Wand_action 2)" by code_simp+
  have 5: "find_next ex_wand_disabled (Wand_action 2) 1 False False = Some (Wand_action 4)"
    using find_next_adjacent [where a = "Wand_action 2" and dir = 1 and g = ex_wand_disabled
        and ad = False and lp = False]
    by (simp add: d directed_def)
  have 1: "find_next ex_wands_2_4 (Wand_action 3) 1 True False = Some (Wand_action 2)"
    using find_next_adjacent [where a = "Wand_action 3" and dir = 1 and g = ex_wands_2_4
        and ad = True and lp = False]
    by (simp add: o directed_def)
  have 2: "find_next ex_wands_2_4 (Wand_action 2) 1 True False = Some (Wand_action 4)"
    using find_next_adjacent [where a = "Wand_action 2" and dir = 1 and g = ex_wands_2_4
        and ad = True and lp = False and xs = "[]" and y = "Wand_action 4" and ys = "[]"]
    by (simp add: o directed_def)
  have 3: "find_next ex_wands_2_4 (Wand_action 4) 1 True lp =
             (if lp then Some (Wand_action 2) else None)" for lp
    using find_next_adjacent [where a = "Wand_action 4" and dir = 1 and g = ex_wands_2_4
        and ad = True and lp = lp and xs = "[Wand_action 2]"]
    by (simp add: o directed_def)
  have 4: "find_next ex_wands_2_4 (Wand_action 4) (- 1) True False = Some (Wand_action 2)"
    using find_next_adjacent [where a = "Wand_action 4" and dir = "- 1" and g = ex_wands_2_4
        and ad = True and lp = False and xs = "[]" and y = "Wand_action 2" and ys = "[]"]
    by (simp add: o directed_def)
  show ?thesis using 1 2 3 4 5 v by simp
qed

section \<open>The ammo fire order\<close>

lemma key_as_concat:
  "fire_order_key r i = signed_take_bit 31 (concat_bit 16 (int i) (int r))"
proof -
  have m: "(0xffff :: 32 word) = mask 16" by (simp add: mask_eq_exp_minus_1)
  have "(word_of_nat i :: 32 word) AND mask 16 = word_of_int (take_bit 16 (int i))"
    by (metis and_mask_wi of_int_of_nat_eq)
  moreover have "push_bit 16 (word_of_nat r :: 32 word) = word_of_int (push_bit 16 (int r))"
    by (simp add: push_bit_eq_mult)
  ultimately have "(push_bit 16 (word_of_nat r :: 32 word) OR (word_of_nat i AND 0xffff))
      = word_of_int (concat_bit 16 (int i) (int r))"
    unfolding m concat_bit_def by (simp add: or.commute word_wi_log_defs)
  then show ?thesis by (simp add: fire_order_key_def sint_sbintrunc')
qed

lemma key_mask: "i < 65536 \<Longrightarrow> fire_order_key r i AND 0xffff = int i"
proof -
  assume a: "i < 65536"
  have m: "(0xffff :: int) = mask 16" by (simp add: mask_eq_exp_minus_1)
  have "fire_order_key r i AND mask 16 = take_bit 16 (signed_take_bit 31 (concat_bit 16 (int i) (int r)))"
    by (simp add: key_as_concat take_bit_eq_mask)
  also have "\<dots> = take_bit 16 (concat_bit 16 (int i) (int r))"
    by (simp add: take_bit_signed_take_bit)
  also have "\<dots> = take_bit 16 (int i)" by (simp add: take_bit_concat_bit_eq)
  also have "\<dots> = int i" using a by (simp add: take_bit_int_eq_self)
  finally show ?thesis unfolding m .
qed

lemma key_value:
  assumes "r < 32768" "i < 65536"
  shows "fire_order_key r i = int r * 65536 + int i"
proof -
  have c: "concat_bit 16 (int i) (int r) = int r * 65536 + int i"
    using assms by (simp add: concat_bit_eq take_bit_int_eq_self push_bit_eq_mult)
  have "signed_take_bit 31 (int r * 65536 + int i) = int r * 65536 + int i"
    using assms by (intro signed_take_bit_int_eq_self) auto
  then show ?thesis by (simp add: key_as_concat c)
qed

lemma first_flag_bounds:
  "first_flag P xs j = Some r \<Longrightarrow> j \<le> r \<and> r < j + length xs"
  by (induction xs arbitrary: j) (fastforce split: if_splits)+

lemma entry_key:
  assumes "item_fire_order_entry g ig l m i = Some k"
  shows "\<exists>r. first_flag (fire_order_accepts g (inv_items (you g) (int i)) l m)
               (fire_order (Options g)) 0 = Some r \<and> k = fire_order_key r i"
  using assms by (auto simp: item_fire_order_entry_def Let_def split: if_splits)

lemma entry_slot:
  assumes "item_fire_order_entry g ig l m i = Some k" "i < 65536"
  shows "k AND 0xffff = int i"
  using entry_key [OF assms(1)] key_mask [OF assms(2)] by auto

lemma entry_enc:
  assumes "item_fire_order_entry g ig l m i = Some k" "i < 65536"
    "length (fire_order (Options g)) \<le> 32768"
  shows "k = enc g l m (int i)"
proof -
  from entry_key [OF assms(1)] obtain r where
    r: "first_flag (fire_order_accepts g (inv_items (you g) (int i)) l m)
               (fire_order (Options g)) 0 = Some r" "k = fire_order_key r i" by blast
  have "r < 32768" using first_flag_bounds [OF r(1)] assms(3) by simp
  then show ?thesis using r assms(2) by (simp add: enc_def fire_rank_def key_value)
qed

lemma set_map_filter: "set (List.map_filter f xs) = {k. \<exists>i \<in> set xs. f i = Some k}"
  by (induction xs) (auto simp: List.map_filter_simps split: option.splits)

lemma distinct_map_filter:
  assumes "distinct xs" "\<And>i j k. i \<in> set xs \<Longrightarrow> j \<in> set xs \<Longrightarrow> f i = Some k \<Longrightarrow> f j = Some k \<Longrightarrow> i = j"
  shows "distinct (List.map_filter f xs)"
  using assms
proof (induction xs)
  case Nil
  then show ?case by (simp add: List.map_filter_simps)
next
  case (Cons x xs)
  have ih: "distinct (List.map_filter f xs)" using Cons by auto
  show ?case
  proof (cases "f x")
    case None
    then show ?thesis using ih by (simp add: List.map_filter_simps)
  next
    case (Some k)
    have "k \<notin> set (List.map_filter f xs)"
    proof
      assume "k \<in> set (List.map_filter f xs)"
      then obtain j where "j \<in> set xs" "f j = Some k" by (auto simp: set_map_filter)
      then have "x = j" using Cons.prems(2) [of x j k] Some by auto
      then show False using Cons.prems(1) \<open>j \<in> set xs\<close> by auto
    qed
    then show ?thesis using ih Some by (simp add: List.map_filter_simps)
  qed
qed


lemma enc_less_iff:
  assumes "0 \<le> s" "s < 65536" "0 \<le> t" "t < 65536"
  shows "enc g l m s < enc g l m t \<longleftrightarrow> fires_before g l m s t"
proof -
  define a where "a = fire_rank g l m s"
  define b where "b = fire_rank g l m t"
  have "int a * 65536 + s < int b * 65536 + t \<longleftrightarrow> a < b \<or> (a = b \<and> s < t)"
    using assms by linarith
  then show ?thesis by (simp add: enc_def fires_before_def a_def b_def)
qed


lemma item_fire_order_sorted:
  assumes "length (fire_order (Options g)) \<le> 32768" "ENDOFPACK (enums g) \<le> 65536"
  shows "sorted_wrt (fires_before g l m) (get_item_fire_order g [] ig l m)"
proof -
  let ?n = "ENDOFPACK (enums g)"
  let ?s = "if ig then 0 else fire_items_start (Options g)"
  let ?K = "List.map_filter (item_fire_order_entry g ig l m) [?s ..< ?n]"
  let ?mask = "\<lambda>k::int. k AND 0xffff"
  have sl: "\<And>k. k \<in> set ?K \<Longrightarrow> k = enc g l m (?mask k) \<and> 0 \<le> ?mask k \<and> ?mask k < 65536"
  proof -
    fix k assume "k \<in> set ?K"
    then obtain i where i: "i \<in> set [?s ..< ?n]" "item_fire_order_entry g ig l m i = Some k"
      by (auto simp: set_map_filter)
    then have lt: "i < 65536" using assms(2) by simp
    show "k = enc g l m (?mask k) \<and> 0 \<le> ?mask k \<and> ?mask k < 65536"
      using entry_slot [OF i(2) lt] entry_enc [OF i(2) lt assms(1)] lt by simp
  qed
  have dK: "distinct ?K"
  proof (rule distinct_map_filter)
    show "distinct [?s ..< ?n]" by simp
  next
    fix i j k assume a: "i \<in> set [?s ..< ?n]" "j \<in> set [?s ..< ?n]"
      "item_fire_order_entry g ig l m i = Some k" "item_fire_order_entry g ig l m j = Some k"
    have "i < 65536" "j < 65536" using a(1,2) assms by auto
    then have "k AND 0xffff = int i" "k AND 0xffff = int j"
      using entry_slot a(3,4) by blast+
    then show "i = j" by simp
  qed
  have "sorted_wrt (<) (sort ?K)" using dK by (simp add: strict_sorted_iff)
  then have "sorted_wrt (\<lambda>x y. fires_before g l m (?mask x) (?mask y)) (sort ?K)"
  proof (rule sorted_wrt_mono_rel [rotated])
    fix x y assume a: "x \<in> set (sort ?K)" "y \<in> set (sort ?K)" "x < y"
    then have x: "x = enc g l m (?mask x) \<and> 0 \<le> ?mask x \<and> ?mask x < 65536"
      and y: "y = enc g l m (?mask y) \<and> 0 \<le> ?mask y \<and> ?mask y < 65536"
      using sl by simp_all
    then have "enc g l m (?mask x) < enc g l m (?mask y)" using a(3) by simp
    then show "fires_before g l m (?mask x) (?mask y)"
      using enc_less_iff x y by blast
  qed
  then have "sorted_wrt (fires_before g l m) (map ?mask (sort ?K))"
    by (simp add: sorted_wrt_map)
  then show ?thesis by (simp add: get_item_fire_order_def Let_def)
qed

lemma ammo_order_slots:
  "map get_item (ammo_action_get_fire_order g ad) =
     filter (\<lambda>s. is_valid g (Ammo_action s) \<and> (ad \<or> is_enabled g (Ammo_action s)))
       (get_item_fire_order g [] False (weapon (you g)) True)"
  by (simp add: ammo_action_get_fire_order_def Let_def filter_map comp_def)

lemma no_autoswitch_rank:
  "\<not> auto_switch (Options g) \<Longrightarrow> first_matching_filter g l m s = fire_rank g l m s"
proof -
  assume a: "\<not> auto_switch (Options g)"
  have "fire_order_accepts g item l m = (\<lambda>flags. item_matches g item flags l m)" for item
    using a by (auto simp: fire_order_accepts_def autoswitch_active_def split: option.splits)
  then show ?thesis by (simp add: first_matching_filter_def fire_rank_def)
qed

text \<open>
  C5, as the code has it. The slots of the ammo fire order are sorted ascending by the
  pair (rank, slot), ties in the rank broken by the slot, where the rank of an item is the
  index of the first entry of \<open>Options.fire_order\<close> at which the loop accepts it: the
  first filter it matches, or index 0 when the launcher is the autoswitch weapon of slot a
  or b and the item passes the autoswitch ammo check. The key is packed into 32 bits, so
  this holds for filter lists of up to 32768 entries (and a pack of up to 65536 slots).
\<close>

theorem ammo_fire_order_sorted:
  assumes "length (fire_order (Options g)) \<le> 32768" "ENDOFPACK (enums g) \<le> 65536"
  shows "sorted_wrt (fires_before g (weapon (you g)) True)
           (map get_item (ammo_action_get_fire_order g allow_disabled))"
  unfolding ammo_order_slots
  by (rule sorted_wrt_filter) (rule item_fire_order_sorted [OF assms])


theorem ammo_fire_order_sorted_witness:
  "length (fire_order (Options ex_arrows_3_5)) \<le> 32768
   \<and> ENDOFPACK (enums ex_arrows_3_5) \<le> 65536
   \<and> sorted_wrt (fires_before ex_arrows_3_5 (weapon (you ex_arrows_3_5)) True)
         (map get_item (ammo_action_get_fire_order ex_arrows_3_5 True))
   \<and> fire_rank ex_arrows_3_5 (weapon (you ex_arrows_3_5)) True 3
       = fire_rank ex_arrows_3_5 (weapon (you ex_arrows_3_5)) True 5
   \<and> map get_item (ammo_action_get_fire_order ex_arrows_3_5 True) = [3, 5]"
proof -
  have 1: "length (fire_order (Options ex_arrows_3_5)) \<le> 32768"
    by (simp add: ex_arrows_3_5_def ex_game_def ex_options_def)
  have 2: "ENDOFPACK (enums ex_arrows_3_5) \<le> 65536"
    by (simp add: ex_arrows_3_5_def ex_game_def ex_enums_def)
  have 3: "fire_rank ex_arrows_3_5 (weapon (you ex_arrows_3_5)) True 3
       = fire_rank ex_arrows_3_5 (weapon (you ex_arrows_3_5)) True 5" by code_simp
  have 4: "map get_item (ammo_action_get_fire_order ex_arrows_3_5 True) = [3, 5]" by code_simp
  show ?thesis using ammo_fire_order_sorted [OF 1 2, of True] 1 2 3 4 by simp
qed

lemma first_flag_replicate:
  "\<not> P x \<Longrightarrow> first_flag P (replicate n x @ ys) j = first_flag P ys (j + n)"
  by (induction n arbitrary: j) auto

lemma first_flag_none: "(\<And>x. \<not> P x) \<Longrightarrow> first_flag P xs j = None"
  by (induction xs arbitrary: j) auto

lemma many_inv:
  "inv_items (you ex_many_filters) =
     (\<lambda>i. ex_none)(3 := ex_arrows 3, 5 := ex_item OBJ_MISSILES MI_JAVELIN 4 5, 0 := ex_bow)"
  by (simp add: ex_many_filters_def ex_game_def)

lemma many_accepts:
  "fire_order_accepts ex_many_filters (ex_arrows 3) (Some ex_bow) True flags
     = (flags AND 1 \<noteq> 0)"
  "fire_order_accepts ex_many_filters (ex_item OBJ_MISSILES MI_JAVELIN 4 5) (Some ex_bow) True
     flags = (flags AND 0x10 \<noteq> 0)"
  "\<not> fire_order_accepts ex_many_filters ex_bow (Some ex_bow) True flags"
  by (simp_all add: fire_order_accepts_def item_matches_def ex_many_filters_def ex_game_def
        ex_enums_def ex_ext_def ex_arrows_def ex_item_def ex_bow_def autoswitch_active_def
        ex_options_def)

lemma many_filters: "fire_order (Options ex_many_filters) = ex_long_filter_list"
  by (simp add: ex_many_filters_def)

lemma many_ranks:
  "first_flag (fire_order_accepts ex_many_filters (ex_arrows 3) (Some ex_bow) True)
      (fire_order (Options ex_many_filters)) 0 = Some 32768"
  "first_flag (fire_order_accepts ex_many_filters (ex_item OBJ_MISSILES MI_JAVELIN 4 5)
      (Some ex_bow) True) (fire_order (Options ex_many_filters)) 0 = Some 0"
  unfolding many_filters ex_long_filter_list_def
  by (simp_all add: many_accepts first_flag_replicate)

lemma many_keys: "fire_order_key 32768 3 = - 2147483645" "fire_order_key 0 5 = 5"
  by (simp_all add: fire_order_key_def)

lemma many_entries:
  "item_fire_order_entry ex_many_filters False (Some ex_bow) True 0 = None"
  "item_fire_order_entry ex_many_filters False (Some ex_bow) True (Suc 0) = None"
  "item_fire_order_entry ex_many_filters False (Some ex_bow) True 2 = None"
  "item_fire_order_entry ex_many_filters False (Some ex_bow) True 3 = Some (- 2147483645)"
  "item_fire_order_entry ex_many_filters False (Some ex_bow) True 4 = None"
  "item_fire_order_entry ex_many_filters False (Some ex_bow) True 5 = Some 5"
proof -
  have d: "defined (ext ex_many_filters) = (\<lambda>item. quantity item > 0)"
    by (simp add: ex_many_filters_def ex_game_def ex_ext_def)
  have q: "quantity (ex_arrows 3) > 0" "inscription (ex_arrows 3) = []"
    "quantity (ex_item OBJ_MISSILES MI_JAVELIN 4 5) > 0"
    "inscription (ex_item OBJ_MISSILES MI_JAVELIN 4 5) = []"
    "quantity ex_bow > 0" "inscription ex_bow = []" "\<not> quantity ex_none > 0"
    by (simp_all add: ex_arrows_def ex_item_def ex_bow_def ex_none_def)
  have n: "first_flag (fire_order_accepts ex_many_filters ex_bow (Some ex_bow) True) xs j = None"
    for xs j by (rule first_flag_none) (rule many_accepts)
  show "item_fire_order_entry ex_many_filters False (Some ex_bow) True 0 = None"
    "item_fire_order_entry ex_many_filters False (Some ex_bow) True (Suc 0) = None"
    "item_fire_order_entry ex_many_filters False (Some ex_bow) True 2 = None"
    "item_fire_order_entry ex_many_filters False (Some ex_bow) True 3 = Some (- 2147483645)"
    "item_fire_order_entry ex_many_filters False (Some ex_bow) True 4 = None"
    "item_fire_order_entry ex_many_filters False (Some ex_bow) True 5 = Some 5"
    unfolding item_fire_order_entry_def many_inv d
    by (simp_all add: q n many_ranks many_keys)
qed

lemma many_item_order:
  "get_item_fire_order ex_many_filters [] False (weapon (you ex_many_filters)) True = [3, 5]"
proof -
  have w: "weapon (you ex_many_filters) = Some ex_bow"
    and n: "ENDOFPACK (enums ex_many_filters) = 6"
    and s: "fire_items_start (Options ex_many_filters) = 0"
    by (simp_all add: ex_many_filters_def ex_game_def ex_enums_def ex_options_def)
  have u: "[0 ..< 6] = [0, 1, 2, 3, 4, 5::nat]" by (simp add: upt_rec)
  have m: "(- 2147483645 :: int) AND 65535 = 3" "(5::int) AND 65535 = 5" by simp_all
  have "List.map_filter (item_fire_order_entry ex_many_filters False (Some ex_bow) True) [0 ..< 6]
          = [- 2147483645, 5]"
    unfolding u by (simp add: List.map_filter_simps many_entries)
  then show ?thesis
    unfolding get_item_fire_order_def w n s Let_def by (simp add: m)
qed

lemma many_valid:
  "ammo_action_is_valid ex_many_filters 3" "ammo_action_is_valid ex_many_filters 5"
  by (simp_all add: ammo_action_is_valid_def many_inv autoswitch_active_def item_matches_def
        ex_many_filters_def ex_game_def ex_enums_def ex_ext_def ex_arrows_def ex_item_def
        ex_bow_def ex_options_def)

lemma many_order: "map get_item (ammo_action_get_fire_order ex_many_filters True) = [3, 5]"
  by (simp add: ammo_order_slots many_item_order many_valid)

lemma many_spec_ranks:
  "first_matching_filter ex_many_filters (weapon (you ex_many_filters)) True 3 = 32768"
  "first_matching_filter ex_many_filters (weapon (you ex_many_filters)) True 5 = 0"
proof -
  have a: "\<not> auto_switch (Options ex_many_filters)"
    by (simp add: ex_many_filters_def ex_options_def)
  have w: "weapon (you ex_many_filters) = Some ex_bow"
    by (simp add: ex_many_filters_def ex_game_def)
  show "first_matching_filter ex_many_filters (weapon (you ex_many_filters)) True 3 = 32768"
    "first_matching_filter ex_many_filters (weapon (you ex_many_filters)) True 5 = 0"
    unfolding no_autoswitch_rank [OF a] w fire_rank_def many_inv
    by (simp_all add: many_ranks)
qed

text \<open>
  C5 as the spec words it fails twice. With autoswitch on and the bow wielded from slot a,
  javelins in slot 3 match only the second filter and arrows in slot 5 the first, yet the
  order is [3, 5]: the autoswitch check accepts the javelins at index 0. And with 32769
  filters, arrows in slot 3 that match only the last filter (index 32768) come before
  javelins in slot 5 that match the first: the key of the arrows has its sign bit set.
\<close>

theorem ammo_fire_order_counterexample:
  "\<not> sorted_wrt (matches_before ex_autoswitch (weapon (you ex_autoswitch)) True)
         (map get_item (ammo_action_get_fire_order ex_autoswitch True))
   \<and> \<not> sorted_wrt (matches_before ex_many_filters (weapon (you ex_many_filters)) True)
         (map get_item (ammo_action_get_fire_order ex_many_filters True))"
proof
  show "\<not> sorted_wrt (matches_before ex_autoswitch (weapon (you ex_autoswitch)) True)
         (map get_item (ammo_action_get_fire_order ex_autoswitch True))"
    by code_simp
  show "\<not> sorted_wrt (matches_before ex_many_filters (weapon (you ex_many_filters)) True)
         (map get_item (ammo_action_get_fire_order ex_many_filters True))"
    by (simp add: many_order matches_before_def many_spec_ranks)
qed


section \<open>A full cycle of \<open>find_next\<close>\<close>







section \<open>Cycling to the next action\<close>

lemma find_next_in_order:
  "find_next g a dir ad lp = Some n \<Longrightarrow> n \<in> set (directed dir (get_fire_order g a ad))"
  by (auto simp: find_next_eq Let_def split: if_splits)

lemma directed_set [simp]: "set (directed dir xs) = set xs"
  by (simp add: directed_def)

lemma directed_Nil [simp]: "directed dir xs = [] \<longleftrightarrow> xs = []"
  by (simp add: directed_def)

lemma find_next_result_valid: "find_next g a dir ad lp = Some n \<Longrightarrow> is_valid g n"
  using find_next_in_order fire_order_valid by fastforce

lemma find_next_invalid_None:
  "\<not> is_valid g r \<Longrightarrow> find_next g r dir ad lp = None \<longleftrightarrow> get_fire_order g r ad = []"
  using fire_order_valid [of r g r ad] by (auto simp: find_next_eq Let_def)

lemma find_next_empty: "get_fire_order g a ad = [] \<Longrightarrow> find_next g a dir ad lp = None"
  by (simp add: find_next_eq Let_def)

lemma first_valid_next_valid:
  "first_valid_next g dir ad rs = Some n \<Longrightarrow> is_valid g n"
  by (induction rs) (auto split: option.splits if_splits)

lemma first_valid_next_None:
  "first_valid_next g dir ad rs = None \<longleftrightarrow> (\<forall>r \<in> set rs. find_next g r dir ad False = None)"
  by (induction rs) (auto split: option.splits dest: find_next_result_valid)

lemma rep_invalid:
  assumes "\<not> is_valid g (Spell_action (SPELL_NO_SPELL (enums g)))" "r \<in> set (action_types g)"
  shows "\<not> is_valid g r"
proof -
  have "\<not> is_valid g (Ammo_action (- 1))" "\<not> is_valid g (Wand_action (- 1))"
    "\<not> is_valid g (Misc_action (- 1))" "\<not> is_valid g (Artefact_evoke_action (- 1))"
    "\<not> is_valid g (Ability_action (ABIL_NON_ABILITY (enums g)))"
    by (simp_all add: ammo_action_is_valid_def wand_action_is_valid_def
        misc_action_is_valid_def artefact_evoke_action_is_valid_def ability_action_is_valid_def)
  then show ?thesis using assms unfolding action_types_def by fastforce
qed

lemma get_next_action_type_valid:
  "get_next_action_type g a dir ad = Some n \<Longrightarrow> is_valid g n"
  by (auto simp: get_next_action_type_def Let_def dest: first_valid_next_valid)

lemma types_set:
  "set (rotate i (if dir < 0 then rev (action_types g) else action_types g)) = set (action_types g)"
  by simp

lemma get_next_action_type_None:
  assumes "\<not> is_valid g (Spell_action (SPELL_NO_SPELL (enums g)))"
  shows "get_next_action_type g a dir ad = None \<longleftrightarrow> fire_orders_empty g ad"
proof -
  have "get_next_action_type g a dir ad = None \<longleftrightarrow>
          (\<forall>r \<in> set (action_types g). find_next g r dir ad False = None)"
    unfolding get_next_action_type_def Let_def first_valid_next_None types_set ..
  also have "\<dots> \<longleftrightarrow> (\<forall>r \<in> set (action_types g). get_fire_order g r ad = [])"
    using rep_invalid [OF assms] find_next_invalid_None by blast
  finally show ?thesis by (simp add: fire_orders_empty_def list_all_iff)
qed

lemma order_of_some_type:
  "get_fire_order g a ad = [] \<or> (\<exists>r \<in> set (action_types g). get_fire_order g r ad = get_fire_order g a ad)"
  by (cases a) (auto simp: action_types_def action_get_fire_order_default_def)

lemma valid_get_item:
  "is_valid g a \<Longrightarrow> get_item a < int (ENDOFPACK (enums g))"
  by (cases a)
     (auto simp: ammo_action_is_valid_def fumble_action_is_valid_def wand_action_is_valid_def
        misc_action_is_valid_def artefact_evoke_action_is_valid_def action_get_item_default_def
        split: if_splits)

lemma action_cycler_set_ok:
  assumes "current c = Some cur" "get_item a < int (ENDOFPACK (enums g))"
  shows "\<exists>d g'. action_cycler_set g c (Some a) = Inr (d, g', c\<lparr>current := Some a\<rparr>)"
  using assms
  by (auto simp: action_cycler_set_def action_cycler_get_def Let_def inv_at_def)

text \<open>
  C2, as the code has it. With a current action in the cycler, \<open>next\<close> returns a
  non-null action. If any of the six fire orders (ammo, wand, misc, artefact, spell,
  ability) is not empty for the given \<open>allow_disabled\<close>, the action is valid; if all
  are empty it is the invalid ammo action of slot -1. \<open>cycle\<close> on a base-class cycler
  installs exactly that action. (\<open>SPELL_NO_SPELL\<close> is taken not to be a spell the
  player has.)
\<close>

theorem next_valid_or_fallback:
  assumes "current c = Some cur"
    and "\<not> is_valid g (Spell_action (SPELL_NO_SPELL (enums g)))"
  shows "\<exists>a. action_cycler_next g c dir ad = Inr (Some a)
           \<and> (if fire_orders_empty g ad then a = Ammo_action (- 1) \<and> \<not> is_valid g a
               else is_valid g a)
           \<and> (\<not> is_launcher_action_cycler c \<longrightarrow>
                (\<exists>d g'. cycle g c dir ad = Inr (d, g', c\<lparr>current := Some a\<rparr>)))"
proof -
  have fb: "\<not> is_valid g (Ammo_action (- 1))" by (simp add: ammo_action_is_valid_def)
  have g: "action_cycler_get c = Inr cur" using assms(1) by (simp add: action_cycler_get_def)
  have "\<exists>a. action_cycler_next g c dir ad = Inr (Some a)
           \<and> (if fire_orders_empty g ad then a = Ammo_action (- 1) \<and> \<not> is_valid g a
               else is_valid g a)"
  proof (cases "find_next g cur dir ad False")
    case (Some r)
    then have v: "is_valid g r" by (rule find_next_result_valid)
    have "get_fire_order g cur ad \<noteq> []" using Some find_next_empty by fastforce
    then have "\<not> fire_orders_empty g ad"
      using order_of_some_type [of g cur ad] unfolding fire_orders_empty_def list_all_iff
      by metis
    then show ?thesis using Some v g by (simp add: action_cycler_next_def Let_def)
  next
    case None
    show ?thesis
    proof (cases "get_next_action_type g (get_ptr c) dir ad")
      case n: None
      then have "fire_orders_empty g ad" using get_next_action_type_None [OF assms(2)] by blast
      then show ?thesis using None n g fb by (simp add: action_cycler_next_def Let_def)
    next
      case (Some n)
      then have "is_valid g n" by (rule get_next_action_type_valid)
      moreover have "\<not> fire_orders_empty g ad"
        using get_next_action_type_None [OF assms(2)] Some by (metis option.distinct(1))
      ultimately show ?thesis using None Some g by (simp add: action_cycler_next_def Let_def)
    qed
  qed
  then obtain a where a: "action_cycler_next g c dir ad = Inr (Some a)"
    "if fire_orders_empty g ad then a = Ammo_action (- 1) \<and> \<not> is_valid g a else is_valid g a"
    by blast
  have "get_item a < int (ENDOFPACK (enums g))"
    using a(2) valid_get_item [of g a] by (auto split: if_splits)
  from action_cycler_set_ok [OF assms(1) this]
  have "\<not> is_launcher_action_cycler c \<longrightarrow>
          (\<exists>d g'. cycle g c dir ad = Inr (d, g', c\<lparr>current := Some a\<rparr>))"
    using a(1) by (auto simp: cycle_def cycler_set_def)
  then show ?thesis using a by blast
qed

text \<open>
  C2 as the spec words it fails: with a wand of digging in slot 2 and nothing else to
  fire, the wand action of slot 2 is valid, yet \<open>next\<close> returns the invalid fallback,
  because the wand fire order leaves digging out.
\<close>

theorem next_counterexample:
  "action_cycler_next ex_digging action_cycler_new 1 True = Inr (Some (Ammo_action (- 1)))
   \<and> \<not> is_valid ex_digging (Ammo_action (- 1))
   \<and> is_valid ex_digging (Wand_action 2)"
  by code_simp

theorem next_valid_or_fallback_witness:
  "current action_cycler_new = Some (Ammo_action (- 1))
   \<and> \<not> is_valid ex_wands_2_4 (Spell_action (SPELL_NO_SPELL (enums ex_wands_2_4)))
   \<and> \<not> fire_orders_empty ex_wands_2_4 True
   \<and> action_cycler_next ex_wands_2_4 action_cycler_new 1 True = Inr (Some (Wand_action 2))
   \<and> is_valid ex_wands_2_4 (Wand_action 2)
   \<and> fire_orders_empty ex_digging True
   \<and> action_cycler_next ex_digging action_cycler_new 1 True = Inr (Some (Ammo_action (- 1)))
   \<and> \<not> is_launcher_action_cycler action_cycler_new
   \<and> map_sum id (\<lambda>r. current (snd (snd r))) (cycle ex_wands_2_4 action_cycler_new 1 True)
       = Inr (Some (Wand_action 2))"
proof -
  have 7: "\<not> is_launcher_action_cycler action_cycler_new" by code_simp
  have 8: "map_sum id (\<lambda>r. current (snd (snd r))) (cycle ex_wands_2_4 action_cycler_new 1 True)
       = Inr (Some (Wand_action 2))" by code_simp
  have 1: "current action_cycler_new = Some (Ammo_action (- 1))" by code_simp
  have 2: "\<not> is_valid ex_wands_2_4 (Spell_action (SPELL_NO_SPELL (enums ex_wands_2_4)))"
    by code_simp
  have 3: "\<not> is_valid ex_digging (Spell_action (SPELL_NO_SPELL (enums ex_digging)))"
    by code_simp
  have 4: "\<not> fire_orders_empty ex_wands_2_4 True" by code_simp
  have 5: "fire_orders_empty ex_digging True" by code_simp
  have 6: "action_cycler_next ex_wands_2_4 action_cycler_new 1 True = Inr (Some (Wand_action 2))"
    by code_simp
  show ?thesis
    using next_valid_or_fallback [OF 1 2, of 1 True] next_valid_or_fallback [OF 1 3, of 1 True]
      1 2 4 5 6 7 8 by auto
qed


section \<open>The launcher cycler's \<open>set\<close>\<close>



text \<open>
  C10, as the code has it. \<open>launcher_action_cycler::set\<close> calls
  \<open>new_act->get_item()\<close> first: on a null pointer it stops there, where
  \<open>action_cycler::set\<close> installs the empty action. On a non-null pointer the null
  dereference cannot happen; the call returns a result when, besides, the cycler holds a
  current action and the item slot of the new action lies below \<open>ENDOFPACK\<close>.
\<close>

theorem launcher_set_null:
  "launcher_action_cycler_set g c None = Inl Null_dereference
   \<and> (current c \<noteq> None \<longrightarrow>
        (\<exists>d g'. action_cycler_set g c None = Inr (d, g', c\<lparr>current := Some Action\<rparr>)))
   \<and> launcher_action_cycler_set g c (Some a) \<noteq> Inl Null_dereference
   \<and> (current c \<noteq> None \<and> get_item a < int (ENDOFPACK (enums g)) \<longrightarrow>
        (\<exists>r. launcher_action_cycler_set g c (Some a) = Inr r))"
proof (intro conjI impI)
  show "launcher_action_cycler_set g c None = Inl Null_dereference"
    by (simp add: launcher_action_cycler_set_def)
next
  assume "current c \<noteq> None"
  then show "\<exists>d g'. action_cycler_set g c None = Inr (d, g', c\<lparr>current := Some Action\<rparr>)"
    by (auto simp: action_cycler_set_def action_cycler_get_def Let_def
        action_get_item_default_def)
next
  show "launcher_action_cycler_set g c (Some a) \<noteq> Inl Null_dereference"
    by (auto simp: launcher_action_cycler_set_def is_currently_launched_ammo_def
        action_cycler_set_def action_cycler_get_def inv_at_def Let_def
        split: option.splits sum.splits if_splits)
next
  assume h: "current c \<noteq> None \<and> get_item a < int (ENDOFPACK (enums g))"
  then obtain cur where cur: "current c = Some cur" by auto
  from action_cycler_set_ok [OF cur] h
  obtain d g' where s: "action_cycler_set g c (Some a) = Inr (d, g', c\<lparr>current := Some a\<rparr>)"
    by blast
  show "\<exists>r. launcher_action_cycler_set g c (Some a) = Inr r"
    using h s
    by (auto simp: launcher_action_cycler_set_def is_currently_launched_ammo_def inv_at_def
        split: option.splits)
qed

theorem launcher_set_null_witness:
  "launcher_action_cycler_set ex_mixed launcher_action_cycler_new None = Inl Null_dereference
   \<and> current launcher_action_cycler_new \<noteq> None
   \<and> get_item (Ammo_action 3) < int (ENDOFPACK (enums ex_mixed))
   \<and> (case action_cycler_set ex_mixed action_cycler_new None of
         Inl e \<Rightarrow> None | Inr r \<Rightarrow> current (snd (snd r))) = Some Action
   \<and> (case launcher_action_cycler_set ex_mixed launcher_action_cycler_new
               (Some (Ammo_action 3)) of
         Inl e \<Rightarrow> None | Inr r \<Rightarrow> current (snd (snd r))) = Some (Ammo_action 3)"
proof -
  have 1: "current launcher_action_cycler_new \<noteq> None" by code_simp
  have 2: "get_item (Ammo_action 3) < int (ENDOFPACK (enums ex_mixed))" by code_simp
  have 3: "(case action_cycler_set ex_mixed action_cycler_new None of
         Inl e \<Rightarrow> None | Inr r \<Rightarrow> current (snd (snd r))) = Some Action" by code_simp
  have 4: "(case launcher_action_cycler_set ex_mixed launcher_action_cycler_new
               (Some (Ammo_action 3)) of
         Inl e \<Rightarrow> None | Inr r \<Rightarrow> current (snd (snd r))) = Some (Ammo_action 3)" by code_simp
  show ?thesis
    using launcher_set_null [of ex_mixed launcher_action_cycler_new "Ammo_action 3"] 1 2 3 4
    by simp
qed


text \<open>
  C10 as first worded, safe under a non-null argument alone, fails: the bow is wielded and
  the new action is a (non-null) ammo action of slot 6 in a pack of six slots.
  \<open>_is_currently_launched_ammo\<close> tests only \<open>slot >= 0\<close> before it reads
  \<open>you.inv[slot]\<close>, so the read is past the end of the pack.
\<close>

theorem launcher_set_range_counterexample:
  "weapon (you ex_mixed) = Some ex_bow
   \<and> int (ENDOFPACK (enums ex_mixed)) = 6
   \<and> current launcher_action_cycler_new = Some (Ammo_action (- 1))
   \<and> map_sum id fst
         (launcher_action_cycler_set ex_mixed launcher_action_cycler_new (Some (Ammo_action 6)))
       = Inl Range_check"
  by code_simp

section \<open>The ammo history\<close>

lemma history_step_entry:
  "history_step h wc t = h t \<or> quantity (history_step h wc t) = 1"
  by (cases wc; cases "snd wc")
     (auto simp: history_step_def set_quiver_def on_item_fired_def Let_def)

lemma history_run_entry:
  "history_run h calls t = h t \<or> quantity (history_run h calls t) = 1"
  unfolding history_run_def
proof (induction calls arbitrary: h)
  case Nil
  then show ?case by simp
next
  case (Cons wc calls)
  show ?case
    using Cons.IH [of "history_step h wc"] history_step_entry [of h wc t] by auto
qed

text \<open>
  C8. After any sequence of \<open>set_quiver\<close> and \<open>on_item_fired\<close> calls, made in any games,
  every entry of the history table is either the entry the table started with or a record
  of quantity 1; an entry that had quantity 1 has quantity 1 afterwards. Both functions
  only assign entries: none is ever cleared.
\<close>

theorem history_quantity_one:
  "(history_run h calls t = h t \<or> quantity (history_run h calls t) = 1)
   \<and> (quantity (h t) = 1 \<longrightarrow> quantity (history_run h calls t) = 1)"
  using history_run_entry [of h calls t] by auto

theorem history_quantity_one_witness:
  "quantity (history_run (\<lambda>t. ex_none)
       [(ex_mixed, On_item_fired (ex_arrows 3) True),
        (ex_mixed, Set_quiver (ex_arrows 5) AMMO_BOW),
        (ex_last_dart, On_item_fired (ex_item OBJ_MISSILES MI_DART 1 3) True)] AMMO_BOW) = 1
   \<and> quantity (history_run (\<lambda>t. ex_none)
       [(ex_mixed, On_item_fired (ex_arrows 3) True),
        (ex_mixed, Set_quiver (ex_arrows 5) AMMO_BOW),
        (ex_last_dart, On_item_fired (ex_item OBJ_MISSILES MI_DART 1 3) True)] AMMO_THROW) = 1
   \<and> history_run (\<lambda>t. ex_none)
       [(ex_mixed, On_item_fired (ex_arrows 3) True),
        (ex_mixed, Set_quiver (ex_arrows 5) AMMO_BOW),
        (ex_last_dart, On_item_fired (ex_item OBJ_MISSILES MI_DART 1 3) True)] AMMO_SLING
       = ex_none
   \<and> quantity (ex_arrows 5) = 20"
proof -
  let ?calls = "[(ex_mixed, On_item_fired (ex_arrows 3) True),
        (ex_mixed, Set_quiver (ex_arrows 5) AMMO_BOW),
        (ex_last_dart, On_item_fired (ex_item OBJ_MISSILES MI_DART 1 3) True)]"
  have 1: "quantity (history_run (\<lambda>t. ex_none) ?calls AMMO_BOW) = 1" by code_simp
  have 2: "history_run (\<lambda>t. ex_none) ?calls AMMO_SLING = ex_none" by code_simp
  have 3: "history_run (\<lambda>t. ex_none) ?calls AMMO_THROW \<noteq> ex_none" by code_simp
  have 4: "quantity (ex_arrows 5) = 20" by code_simp
  show ?thesis
    using history_quantity_one [of "\<lambda>t. ex_none" ?calls AMMO_THROW] 1 2 3 4 by simp
qed


section \<open>The current action is never null\<close>

lemma follows_refl [simp]: "follows c c"
  by (simp add: follows_def)

lemma follows_set [simp]: "follows c (c\<lparr>current := Some a\<rparr>)"
  by (auto simp: follows_def)

lemma follows_trans: "follows c c' \<Longrightarrow> follows c' c'' \<Longrightarrow> follows c c''"
  by (auto simp: follows_def)

lemma follows_current: "follows c c' \<Longrightarrow> current c \<noteq> None \<Longrightarrow> current c' \<noteq> None"
  by (auto simp: follows_def)

lemma follows_class:
  "follows c c' \<Longrightarrow> is_launcher_action_cycler c' = is_launcher_action_cycler c"
  by (auto simp: follows_def)

lemma action_cycler_set_result:
  assumes "action_cycler_set g c p = Inr (d, g', c')"
  shows "c' = c\<lparr>current := Some (case p of Some a \<Rightarrow> a | None \<Rightarrow> Action)\<rparr>
         \<and> launcher_action (you g') = launcher_action (you g)"
  using assms
  by (auto simp: action_cycler_set_def Let_def set_needs_redraw_def set_quiver_def
      action_cycler_set_needs_redraw_def launcher_action_cycler_set_needs_redraw_def
      split: sum.splits if_splits)

lemma launcher_set_result:
  assumes "launcher_action_cycler_set g c p = Inr (d, g', c')"
  shows "follows c c' \<and> launcher_action (you g') = launcher_action (you g)"
proof (cases p)
  case None
  then show ?thesis using assms by (simp add: launcher_action_cycler_set_def)
next
  case (Some a)
  show ?thesis
  proof (cases "is_currently_launched_ammo g (get_item a)")
    case (Inl e)
    then show ?thesis using assms Some by (simp add: launcher_action_cycler_set_def)
  next
    case (Inr launched)
    show ?thesis
    proof (cases "launched \<or> action_eq a Action")
      case True
      then have "action_cycler_set g c p = Inr (d, g', c')"
        using assms Some Inr by (simp add: launcher_action_cycler_set_def)
      then show ?thesis using action_cycler_set_result by fastforce
    next
      case False
      then show ?thesis using assms Some Inr
        by (auto simp: launcher_action_cycler_set_def launcher_action_cycler_set_needs_redraw_def
            action_cycler_set_needs_redraw_def Let_def)
    qed
  qed
qed

lemma cycler_set_result:
  assumes "cycler_set g c p = Inr (d, g', c')"
  shows "follows c c' \<and> launcher_action (you g') = launcher_action (you g)"
  using assms action_cycler_set_result [of g c p d g' c'] launcher_set_result [of g c p d g' c']
  by (auto simp: cycler_set_def split: if_splits)

lemma cycler_set_enums:
  assumes "cycler_set g c p = Inr (d, g', c')"
  shows "enums g' = enums g"
  using assms
  by (auto simp: cycler_set_def action_cycler_set_def launcher_action_cycler_set_def Let_def
      set_needs_redraw_def set_quiver_def action_cycler_set_needs_redraw_def
      launcher_action_cycler_set_needs_redraw_def split: sum.splits if_splits option.splits)

lemma cycle_result:
  assumes "cycle g c dir ad = Inr (d, g', c')"
  shows "follows c c'"
  using assms cycler_set_result by (fastforce simp: cycle_def split: sum.splits)

lemma set_to_quiver_result:
  assumes "set_to_quiver g c q ae s = Inr (b, g', c')"
  shows "follows c c'"
proof (cases s)
  case None
  then show ?thesis using assms by (simp add: set_to_quiver_def)
next
  case (Some a)
  show ?thesis
  proof (cases "is_valid g a \<and> (ae \<or> \<not> action_eq a Action)")
    case False
    then show ?thesis using assms Some by (auto simp: set_to_quiver_def)
  next
    case True
    show ?thesis
    proof (cases "cycler_set g c s")
      case (Inl e)
      then show ?thesis using assms Some True by (simp add: set_to_quiver_def)
    next
      case (Inr r1)
      then have f: "follows c (snd (snd r1))"
        using cycler_set_result [of g c s "fst r1" "fst (snd r1)" "snd (snd r1)"] by simp
      have "c' = snd (snd r1)"
        using assms Some True Inr
        by (auto simp: set_to_quiver_def Let_def split: if_splits sum.splits)
      then show ?thesis using f by simp
    qed
  qed
qed

lemma target_loop_result:
  "target_loop g c q evs = Some (Inr (w, f, g', c')) \<Longrightarrow> follows c c'"
proof (induction evs arbitrary: g c)
  case Nil
  then show ?case by (simp split: if_splits)
next
  case (Cons ev evs)
  let ?c1 = "c\<lparr>current := Some (ev_current ev)\<rparr>"
  have c1: "follows c ?c1" by simp
  have step: "\<And>g2 c2. follows ?c1 c2 \<Longrightarrow> target_loop g2 c2 q evs = Some (Inr (w, f, g', c'))
      \<Longrightarrow> follows c c'"
    using Cons.IH follows_trans c1 by blast
  show ?case
  proof (cases "do_target_refuses g c")
    case True
    then show ?thesis using Cons.prems
      by (auto simp: do_target_refuses_def split: option.splits)
  next
    case False
    then obtain a where a: "get_ptr c = Some a" "is_valid g a"
      by (auto simp: do_target_refuses_def split: option.splits)
    show ?thesis
    proof (cases "ev_cmd_result ev")
      case CMD_NO_CMD
      then show ?thesis using Cons.prems a by (auto simp: Let_def)
    next
      case CMD_FIRE
      then show ?thesis using Cons.prems a by (auto simp: Let_def)
    next
      case (CMD_OTHER n)
      then show ?thesis using Cons.prems a by (auto simp: Let_def)
    next
      case CMD_TARGET_CYCLE_QUIVER_FORWARD
      then obtain r where r: "cycle (ev_game ev) ?c1 1 False = Inr r"
        "target_loop (fst (snd r)) (snd (snd r)) q evs = Some (Inr (w, f, g', c'))"
        using Cons.prems a by (auto simp: Let_def split: sum.splits)
      show ?thesis
        using step [OF _ r(2)] cycle_result [of "ev_game ev" ?c1 1 False "fst r" "fst (snd r)" "snd (snd r)"] r(1)
        by simp
    next
      case CMD_TARGET_CYCLE_QUIVER_BACKWARD
      then obtain r where r: "cycle (ev_game ev) ?c1 (- 1) False = Inr r"
        "target_loop (fst (snd r)) (snd (snd r)) q evs = Some (Inr (w, f, g', c'))"
        using Cons.prems a by (auto simp: Let_def split: sum.splits)
      show ?thesis
        using step [OF _ r(2)] cycle_result [of "ev_game ev" ?c1 "- 1" False "fst r" "fst (snd r)" "snd (snd r)"] r(1)
        by simp
    next
      case CMD_TARGET_SELECT_ACTION
      then obtain r where r: "set_to_quiver (ev_game ev) ?c1 q False (ev_menu_choice ev) = Inr r"
        "target_loop (fst (snd r)) (snd (snd r)) q evs = Some (Inr (w, f, g', c'))"
        using Cons.prems a by (auto simp: Let_def split: sum.splits)
      show ?thesis
        using step [OF _ r(2)]
          set_to_quiver_result [of "ev_game ev" ?c1 q False "ev_menu_choice ev" "fst r" "fst (snd r)" "snd (snd r)"] r(1)
        by simp
    qed
  qed
qed

lemma target_result:
  assumes "target g c q evs = Some (Inr (g', c'))"
  shows "follows c c'"
proof -
  from assms obtain w f g1 c1 where l: "target_loop g c q evs = Some (Inr (w, f, g1, c1))"
    by (auto simp: target_def Let_def split: option.splits sum.splits)
  have f1: "follows c c1" using target_loop_result [OF l] .
  have "follows c1 c'"
    using assms l cycler_set_result [of g1 c1 "get_ptr c"]
    by (auto simp: target_def Let_def split: if_splits sum.splits)
  then show ?thesis using f1 follows_trans by blast
qed

lemma reachable_current: "reachable c \<Longrightarrow> current c \<noteq> None"
proof (induction rule: reachable.induct)
  case by_action_cycler
  then show ?case by (simp add: action_cycler_new_def)
next
  case by_launcher_action_cycler
  then show ?case by (simp add: launcher_action_cycler_new_def)
next
  case (by_set c g new_act d g' c')
  then show ?case using cycler_set_result follows_current by blast
next
  case (by_action_cycler_set c g new_act d g' c')
  then show ?case using action_cycler_set_result by fastforce
next
  case (by_set_cycler c other g same_pointer d g' c')
  then show ?case by (auto simp: action_cycler_set_cycler_def Let_def)
next
  case (by_cycle c g dir allow_disabled d g' c')
  then show ?case using cycle_result follows_current by blast
next
  case (by_clear c g d g' c')
  then show ?case using cycler_set_result follows_current unfolding clear_def by blast
next
  case (by_target c g is_you_quiver_action evs g' c')
  then show ?case using target_result follows_current by blast
qed

text \<open>
  C9. The constructor installs the ammo action of slot -1, which is not valid in any
  game; every cycler that the constructors and the operations can produce holds a current
  action, so \<open>get()\<close> passes its assertion and yields that action; and on such a cycler
  \<open>action_cycler::set\<close> with a null pointer stores the base empty action.
\<close>

theorem current_never_null:
  "current action_cycler_new = Some (Ammo_action (- 1))
   \<and> \<not> is_valid g (Ammo_action (- 1))
   \<and> (reachable c \<longrightarrow>
        (\<exists>a. current c = Some a \<and> action_cycler_get c = Inr a)
        \<and> (\<exists>d g'. action_cycler_set g c None = Inr (d, g', c\<lparr>current := Some Action\<rparr>)))"
proof (intro conjI impI)
  show "current action_cycler_new = Some (Ammo_action (- 1))"
    by (simp add: action_cycler_new_def)
  show "\<not> is_valid g (Ammo_action (- 1))" by (simp add: ammo_action_is_valid_def)
next
  assume "reachable c"
  then have "current c \<noteq> None" by (rule reachable_current)
  then show "\<exists>a. current c = Some a \<and> action_cycler_get c = Inr a"
    by (auto simp: action_cycler_get_def)
next
  assume "reachable c"
  then have "current c \<noteq> None" by (rule reachable_current)
  then show "\<exists>d g'. action_cycler_set g c None = Inr (d, g', c\<lparr>current := Some Action\<rparr>)"
    by (auto simp: action_cycler_set_def action_cycler_get_def Let_def
        action_get_item_default_def)
qed


theorem current_never_null_witness:
  "reachable (action_cycler_new\<lparr>current := Some (Ammo_action 3)\<rparr>)
   \<and> action_cycler_get (action_cycler_new\<lparr>current := Some (Ammo_action 3)\<rparr>)
       = Inr (Ammo_action 3)
   \<and> map_sum id (\<lambda>r. current (snd (snd r)))
        (action_cycler_set ex_mixed (action_cycler_new\<lparr>current := Some (Ammo_action 3)\<rparr>) None)
       = Inr (Some Action)"
proof -
  let ?c = "action_cycler_new\<lparr>current := Some (Ammo_action 3)\<rparr>"
  have "map_sum id (\<lambda>r. snd (snd r)) (cycle ex_mixed action_cycler_new 1 True) = Inr ?c"
    by code_simp
  then obtain d g' where "cycle ex_mixed action_cycler_new 1 True = Inr (d, g', ?c)"
    by (cases "cycle ex_mixed action_cycler_new 1 True") auto
  then have r: "reachable ?c" using reachable.by_cycle reachable.by_action_cycler by blast
  have g: "action_cycler_get ?c = Inr (Ammo_action 3)" by code_simp
  show ?thesis using current_never_null [of ex_mixed ?c] r g by auto
qed


section \<open>The targeting loop\<close>

lemma launcher_set_ok:
  assumes "current c = Some cur" "get_item a < int (ENDOFPACK (enums g))"
  shows "\<exists>r. launcher_action_cycler_set g c (Some a) = Inr r"
proof -
  from action_cycler_set_ok [OF assms]
  obtain d g' where s: "action_cycler_set g c (Some a) = Inr (d, g', c\<lparr>current := Some a\<rparr>)"
    by blast
  show ?thesis
    using assms(2) s
    by (auto simp: launcher_action_cycler_set_def is_currently_launched_ammo_def inv_at_def
        split: option.splits)
qed

lemma cycler_set_ok:
  assumes "current c \<noteq> None" "get_item a < int (ENDOFPACK (enums g))"
  shows "\<exists>r. cycler_set g c (Some a) = Inr r"
proof -
  from assms(1) obtain cur where cur: "current c = Some cur" by auto
  show ?thesis
    using launcher_set_ok [OF cur assms(2)] action_cycler_set_ok [OF cur assms(2)]
    by (auto simp: cycler_set_def)
qed

lemma next_result:
  assumes "current c \<noteq> None"
  shows "\<exists>a. action_cycler_next g c dir ad = Inr (Some a)
           \<and> get_item a < int (ENDOFPACK (enums g))"
proof -
  from assms obtain cur where g: "action_cycler_get c = Inr cur"
    by (auto simp: action_cycler_get_def)
  have fb: "get_item (Ammo_action (- 1)) < int (ENDOFPACK (enums g))" by simp
  show ?thesis
  proof (cases "find_next g cur dir ad False")
    case (Some r)
    then have "is_valid g r" by (rule find_next_result_valid)
    then show ?thesis using Some g valid_get_item by (simp add: action_cycler_next_def Let_def)
  next
    case None
    show ?thesis
    proof (cases "get_next_action_type g (get_ptr c) dir ad")
      case n: None
      then show ?thesis using None g by (simp add: action_cycler_next_def Let_def)
    next
      case (Some n)
      then have "is_valid g n" by (rule get_next_action_type_valid)
      then show ?thesis using None Some g valid_get_item
        by (simp add: action_cycler_next_def Let_def)
    qed
  qed
qed

lemma cycle_ok:
  assumes "current c \<noteq> None"
  shows "\<exists>r. cycle g c dir ad = Inr r"
proof -
  from next_result [OF assms] obtain a where
    a: "action_cycler_next g c dir ad = Inr (Some a)" "get_item a < int (ENDOFPACK (enums g))"
    by blast
  show ?thesis using cycler_set_ok [OF assms a(2)] a(1) by (simp add: cycle_def)
qed

lemma set_to_quiver_ok:
  assumes "current c \<noteq> None" "q \<longrightarrow> current (launcher_action (you g)) \<noteq> None"
  shows "\<exists>r. set_to_quiver g c q ae s = Inr r"
proof (cases s)
  case None
  then show ?thesis by (auto simp: set_to_quiver_def)
next
  case (Some a)
  show ?thesis
  proof (cases "is_valid g a \<and> (ae \<or> \<not> action_eq a Action)")
    case False
    then show ?thesis using Some by (auto simp: set_to_quiver_def)
  next
    case True
    then have lt: "get_item a < int (ENDOFPACK (enums g))" using valid_get_item by blast
    from cycler_set_ok [OF assms(1) lt] obtain r1 where r1: "cycler_set g c (Some a) = Inr r1"
      by blast
    have l: "launcher_action (you (fst (snd r1))) = launcher_action (you g)"
      and e: "enums (fst (snd r1)) = enums g"
      using cycler_set_result [of g c "Some a" "fst r1" "fst (snd r1)" "snd (snd r1)"] r1
        cycler_set_enums [of g c "Some a" "fst r1" "fst (snd r1)" "snd (snd r1)"]
      by simp_all
    show ?thesis
    proof (cases q)
      case False
      then show ?thesis using Some True r1 by (auto simp: set_to_quiver_def Let_def)
    next
      case q: True
      then have "current (launcher_action (you (fst (snd r1)))) \<noteq> None"
        using assms(2) l by simp
      moreover have "get_item a < int (ENDOFPACK (enums (fst (snd r1))))" using lt e by simp
      ultimately obtain r2 where
        "cycler_set (fst (snd r1)) (launcher_action (you (fst (snd r1)))) (Some a) = Inr r2"
        using cycler_set_ok by blast
      then show ?thesis using Some True r1 q by (auto simp: set_to_quiver_def Let_def)
    qed
  qed
qed


lemma target_loop_no_error:
  assumes "current c \<noteq> None"
    and "q \<longrightarrow> (\<forall>ev \<in> set evs. current (launcher_action (you (ev_game ev))) \<noteq> None)"
  shows "target_loop g c q evs \<noteq> Some (Inl e)"
  using assms
proof (induction evs arbitrary: g c)
  case Nil
  then show ?case by simp
next
  case (Cons ev evs)
  let ?c1 = "c\<lparr>current := Some (ev_current ev)\<rparr>"
  have c1: "current ?c1 \<noteq> None" by simp
  have l: "q \<longrightarrow> current (launcher_action (you (ev_game ev))) \<noteq> None"
    using Cons.prems(2) by simp
  have ih: "\<And>g2 c2. follows ?c1 c2 \<Longrightarrow> target_loop g2 c2 q evs \<noteq> Some (Inl e)"
    using Cons.IH Cons.prems(2) follows_current [OF _ c1] by simp
  show ?case
  proof (cases "do_target_refuses g c")
    case True
    then show ?thesis by (auto simp: do_target_refuses_def split: option.splits)
  next
    case False
    then obtain a where a: "get_ptr c = Some a" "is_valid g a"
      by (auto simp: do_target_refuses_def split: option.splits)
    show ?thesis
    proof (cases "ev_cmd_result ev")
      case CMD_NO_CMD
      then show ?thesis using a by (simp add: Let_def)
    next
      case CMD_FIRE
      then show ?thesis using a by (simp add: Let_def)
    next
      case (CMD_OTHER n)
      then show ?thesis using a by (simp add: Let_def)
    next
      case CMD_TARGET_CYCLE_QUIVER_FORWARD
      from cycle_ok [OF c1] obtain r where r: "cycle (ev_game ev) ?c1 1 False = Inr r" by blast
      have "follows ?c1 (snd (snd r))"
        using cycle_result [of "ev_game ev" ?c1 1 False "fst r" "fst (snd r)" "snd (snd r)"] r
        by simp
      then show ?thesis using ih a r CMD_TARGET_CYCLE_QUIVER_FORWARD by (simp add: Let_def)
    next
      case CMD_TARGET_CYCLE_QUIVER_BACKWARD
      from cycle_ok [OF c1] obtain r where r: "cycle (ev_game ev) ?c1 (- 1) False = Inr r"
        by blast
      have "follows ?c1 (snd (snd r))"
        using cycle_result [of "ev_game ev" ?c1 "- 1" False "fst r" "fst (snd r)" "snd (snd r)"] r
        by simp
      then show ?thesis using ih a r CMD_TARGET_CYCLE_QUIVER_BACKWARD by (simp add: Let_def)
    next
      case CMD_TARGET_SELECT_ACTION
      from set_to_quiver_ok [OF c1 l] obtain r where
        r: "set_to_quiver (ev_game ev) ?c1 q False (ev_menu_choice ev) = Inr r" by blast
      have "follows ?c1 (snd (snd r))"
        using set_to_quiver_result [of "ev_game ev" ?c1 q False "ev_menu_choice ev"
            "fst r" "fst (snd r)" "snd (snd r)"] r
        by simp
      then show ?thesis using ih a r CMD_TARGET_SELECT_ACTION by (simp add: Let_def)
    qed
  qed
qed

lemma target_loop_returns:
  assumes "\<exists>ev \<in> set evs. ends_loop (ev_cmd_result ev)"
  shows "target_loop g c q evs \<noteq> None"
  using assms
proof (induction evs arbitrary: g c)
  case Nil
  then show ?case by simp
next
  case (Cons ev evs)
  show ?case
  proof (cases "ends_loop (ev_cmd_result ev)")
    case True
    then show ?thesis
      by (cases "ev_cmd_result ev") (auto simp: ends_loop_def Let_def split: option.splits)
  next
    case False
    then have "\<exists>ev \<in> set evs. ends_loop (ev_cmd_result ev)" using Cons.prems by simp
    then have ih: "\<And>g2 c2. target_loop g2 c2 q evs \<noteq> None" using Cons.IH by blast
    show ?thesis
      using False ih
      by (cases "ev_cmd_result ev")
         (auto simp: ends_loop_def Let_def split: option.splits sum.splits)
  qed
qed

text \<open>
  C4, as the code has it. Take a run of \<open>target\<close> on a base-class cycler whose loop ends
  in a cancellation (\<open>what_happened\<close> is \<open>CMD_NO_CMD\<close>) or with
  \<open>force_restore_initial\<close> set. If the action that was current before the loop is valid
  in the game at the end of the loop, it is the current action afterwards, whatever the
  cycling and selecting inside the loop did. If it is not valid then, nothing is restored:
  the cycler keeps the action the loop left in it.
\<close>

theorem target_restores_initial:
  assumes "current c = Some initial"
    and "\<not> is_launcher_action_cycler c"
    and "target_loop g c q evs = Some (Inr (what_happened, force_restore_initial, g1, c1))"
    and "what_happened = CMD_NO_CMD \<or> force_restore_initial"
  shows "(is_valid g1 initial \<longrightarrow> target_current g c q evs = Some (Inr (Some initial)))
       \<and> (\<not> is_valid g1 initial \<longrightarrow> target_current g c q evs = Some (Inr (current c1)))"
proof (intro conjI impI)
  have f: "follows c c1" using target_loop_result [OF assms(3)] .
  then have n: "current c1 \<noteq> None" and b: "\<not> is_launcher_action_cycler c1"
    using follows_current [OF f] follows_class [OF f] assms(1,2) by simp_all
  assume v: "is_valid g1 initial"
  then have "get_item initial < int (ENDOFPACK (enums g1))" by (rule valid_get_item)
  with n obtain cur d g2 where
    "action_cycler_set g1 c1 (Some initial) = Inr (d, g2, c1\<lparr>current := Some initial\<rparr>)"
    using action_cycler_set_ok by (metis not_None_eq)
  then show "target_current g c q evs = Some (Inr (Some initial))"
    using assms v b
    by (simp add: target_current_def target_def get_ptr_def cycler_set_def Let_def)
next
  assume "\<not> is_valid g1 initial"
  then show "target_current g c q evs = Some (Inr (current c1))"
    using assms by (simp add: target_current_def target_def get_ptr_def Let_def)
qed


text \<open>
  C4 as the spec words it fails: the quiver holds the last dart (slot 3), the player fires
  it, and while it is thrown the inventory code replaces the used-up action by the
  javelins of slot 5. The loop ends with \<open>force_restore_initial\<close> set, the initial action
  is no longer valid, so nothing is restored: the cycler ends on slot 5, not on slot 3.
\<close>

theorem target_counterexample:
  "is_valid ex_last_dart (Ammo_action 3)
   \<and> target_loop_exit ex_last_dart (ex_quiver (Ammo_action 3)) True
        [ex_event ex_dart_thrown (Ammo_action 5) CMD_FIRE] = Some (Inr (CMD_FIRE, True))
   \<and> target_current ex_last_dart (ex_quiver (Ammo_action 3)) True
        [ex_event ex_dart_thrown (Ammo_action 5) CMD_FIRE] = Some (Inr (Some (Ammo_action 5)))"
  by code_simp

theorem target_restores_initial_witness:
  "current (ex_quiver (Ammo_action 3)) = Some (Ammo_action 3)
   \<and> target_loop_exit ex_mixed (ex_quiver (Ammo_action 3)) True
        [ex_event ex_mixed (Ammo_action 3) CMD_TARGET_CYCLE_QUIVER_FORWARD,
         ex_event ex_mixed (Ammo_action 5) CMD_TARGET_CYCLE_QUIVER_FORWARD,
         ex_event ex_mixed (Wand_action 2) CMD_NO_CMD] = Some (Inr (CMD_NO_CMD, False))
   \<and> (case target_loop ex_mixed (ex_quiver (Ammo_action 3)) True
        [ex_event ex_mixed (Ammo_action 3) CMD_TARGET_CYCLE_QUIVER_FORWARD,
         ex_event ex_mixed (Ammo_action 5) CMD_TARGET_CYCLE_QUIVER_FORWARD,
         ex_event ex_mixed (Wand_action 2) CMD_NO_CMD] of
          Some (Inr r) \<Rightarrow> current (snd (snd (snd r))) | _ \<Rightarrow> None) = Some (Wand_action 2)
   \<and> target_current ex_mixed (ex_quiver (Ammo_action 3)) True
        [ex_event ex_mixed (Ammo_action 3) CMD_TARGET_CYCLE_QUIVER_FORWARD,
         ex_event ex_mixed (Ammo_action 5) CMD_TARGET_CYCLE_QUIVER_FORWARD,
         ex_event ex_mixed (Wand_action 2) CMD_NO_CMD] = Some (Inr (Some (Ammo_action 3)))"
proof -
  let ?c = "ex_quiver (Ammo_action 3)"
  let ?evs = "[ex_event ex_mixed (Ammo_action 3) CMD_TARGET_CYCLE_QUIVER_FORWARD,
         ex_event ex_mixed (Ammo_action 5) CMD_TARGET_CYCLE_QUIVER_FORWARD,
         ex_event ex_mixed (Wand_action 2) CMD_NO_CMD]"
  have 1: "current ?c = Some (Ammo_action 3)" by code_simp
  have 2: "\<not> is_launcher_action_cycler ?c" by code_simp
  have 3: "target_loop_exit ex_mixed ?c True ?evs = Some (Inr (CMD_NO_CMD, False))" by code_simp
  have 4: "(case target_loop ex_mixed ?c True ?evs of
          Some (Inr r) \<Rightarrow> is_valid (fst (snd (snd r))) (Ammo_action 3) | _ \<Rightarrow> False)"
    by code_simp
  have 5: "(case target_loop ex_mixed ?c True ?evs of
          Some (Inr r) \<Rightarrow> current (snd (snd (snd r))) | _ \<Rightarrow> None) = Some (Wand_action 2)"
    by code_simp
  from 3 obtain g1 c1 where
    l: "target_loop ex_mixed ?c True ?evs = Some (Inr (CMD_NO_CMD, False, g1, c1))"
    unfolding target_loop_exit_def
    by (cases "target_loop ex_mixed ?c True ?evs") (auto simp: map_sum_def split: sum.splits)
  have v: "is_valid g1 (Ammo_action 3)" using 4 l by simp
  have "target_current ex_mixed ?c True ?evs = Some (Inr (Some (Ammo_action 3)))"
    using target_restores_initial [OF 1 2 l] v by simp
  then show ?thesis using 1 3 5 by simp
qed


end
